theory Spec2Isabelle
  imports Complex_Main "HOL-Library.Word" "HOL-Library.Sublist" "HOL-Library.Multiset"
begin

section \<open>Primitive values of the host language\<close>

subsection \<open>Strings\<close>

text \<open>
  A string of the program is a sequence of 16-bit code units; \<open>length\<close> counts code
  units, as the \<open>length\<close> property of the source does. \<open>ascii\<close> writes a string
  literal of the source whose characters are all ASCII.
\<close>

type_synonym code_unit = "16 word"

type_synonym jsstring = "code_unit list"

definition ascii :: "string \<Rightarrow> jsstring" where
  "ascii s = map of_char s"

text \<open>
  White space and line terminators, the code units that \<open>String.prototype.trim\<close>
  strips and that may surround a numeric literal: TAB, LF, VT, FF, CR, SP, NBSP, the
  space separators of Unicode, LS, PS and the byte order mark.
\<close>

definition StrWhiteSpaceChar :: "code_unit \<Rightarrow> bool" where
  "StrWhiteSpaceChar c \<longleftrightarrow>
     c \<in> set [0x0009, 0x000A, 0x000B, 0x000C, 0x000D, 0x0020, 0x00A0, 0x1680,
              0x2000, 0x2001, 0x2002, 0x2003, 0x2004, 0x2005, 0x2006, 0x2007,
              0x2008, 0x2009, 0x200A, 0x2028, 0x2029, 0x202F, 0x205F, 0x3000, 0xFEFF]"

definition trim :: "jsstring \<Rightarrow> jsstring" where
  "trim s = rev (dropWhile StrWhiteSpaceChar (rev (dropWhile StrWhiteSpaceChar s)))"

subsection \<open>Numbers\<close>

text \<open>
  The program never computes with a number: it converts a string to one, compares it
  with \<open>>=\<close> and \<open><=\<close>, and prints it with \<open>toString\<close>. A finite number is kept
  as the decimal that \<open>toString\<close> prints, the shortest that reads back as the same
  number: \<open>Finite neg s e\<close> is \<open>s * 10 ^ e\<close>, negated when \<open>neg\<close> holds, so that
  \<open>Finite True 0 0\<close> is the negative zero. The order of finite doubles is the order of
  these decimals, so comparisons are exact. The rounding of a numeric literal to the
  nearest double is the one step that needs binary floating point; it is a parameter of
  \<open>StringToNumber\<close> below, and every theorem holds whatever it is.
\<close>

datatype number = NaN | PosInfinity | NegInfinity
  | Finite (negative: bool) (coefficient: nat) (exponent: int)

definition mathematical_value :: "bool \<Rightarrow> nat \<Rightarrow> int \<Rightarrow> rat" where
  "mathematical_value neg s e =
     (if neg then - 1 else 1) * of_nat s *
     (if 0 \<le> e then 10 ^ nat e else 1 / 10 ^ nat (- e))"

text \<open>
  \<open>Number::lessThan\<close>: \<open>None\<close> is the result \<open>undefined\<close> that a \<open>NaN\<close> operand gives.
\<close>

fun lessThan_number :: "number \<Rightarrow> number \<Rightarrow> bool option" where
  "lessThan_number NaN y = None"
| "lessThan_number x NaN = None"
| "lessThan_number PosInfinity y = Some False"
| "lessThan_number x PosInfinity = Some True"
| "lessThan_number x NegInfinity = Some False"
| "lessThan_number NegInfinity y = Some True"
| "lessThan_number (Finite n1 s1 e1) (Finite n2 s2 e2) =
     Some (mathematical_value n1 s1 e1 < mathematical_value n2 s2 e2)"

text \<open>The operators \<open>x >= y\<close> and \<open>x <= y\<close> on two numbers.\<close>

definition ge_number :: "number \<Rightarrow> number \<Rightarrow> bool" where
  "ge_number x y = (case lessThan_number x y of Some False \<Rightarrow> True | _ \<Rightarrow> False)"

definition le_number :: "number \<Rightarrow> number \<Rightarrow> bool" where
  "le_number x y = (case lessThan_number y x of Some False \<Rightarrow> True | _ \<Rightarrow> False)"

text \<open>The number that a count of code units is.\<close>

definition number_of_nat :: "nat \<Rightarrow> number" where
  "number_of_nat n = Finite False n 0"

subsubsection \<open>Printing a number\<close>

fun decimal_digits :: "nat \<Rightarrow> jsstring" where
  "decimal_digits n =
     (if n < 10 then [0x30 + of_nat n]
      else decimal_digits (n div 10) @ [0x30 + of_nat (n mod 10)])"

declare decimal_digits.simps [simp del]

text \<open>
  \<open>Number::toString\<close> in radix 10. With \<open>k\<close> the number of digits of the coefficient
  and \<open>n = e + k\<close> the position of the decimal point, a number with \<open>-5 \<le> n \<le> 21\<close>
  prints in positional notation and any other in exponential notation.
\<close>

definition unsigned_toString :: "nat \<Rightarrow> int \<Rightarrow> jsstring" where
  "unsigned_toString s e =
     (let ds = decimal_digits s; k = int (length ds); n = e + k in
      if - 5 \<le> n \<and> n \<le> 21 then
        (if k \<le> n then ds @ replicate (nat (n - k)) 0x30
         else if 0 < n then take (nat n) ds @ ascii ''.'' @ drop (nat n) ds
         else ascii ''0.'' @ replicate (nat (- n)) 0x30 @ ds)
      else
        (let x = ascii ''e'' @ (if n - 1 < 0 then ascii ''-'' else ascii ''+'') @
                 decimal_digits (nat \<bar>n - 1\<bar>) in
         if k = 1 then ds @ x
         else take 1 ds @ ascii ''.'' @ drop 1 ds @ x))"

text \<open>
  The digits printed are as few as the value allows: zeros at the end of the coefficient
  go into the exponent first.
\<close>

fun shortest :: "nat \<Rightarrow> int \<Rightarrow> nat \<times> int" where
  "shortest s e =
     (if s \<noteq> 0 \<and> s mod 10 = 0 then shortest (s div 10) (e + 1) else (s, e))"

declare shortest.simps [simp del]

fun number_toString :: "number \<Rightarrow> jsstring" where
  "number_toString NaN = ascii ''NaN''"
| "number_toString PosInfinity = ascii ''Infinity''"
| "number_toString NegInfinity = ascii ''-Infinity''"
| "number_toString (Finite neg s e) =
     (if s = 0 then ascii ''0''
      else if neg then ascii ''-'' @ unsigned_toString (fst (shortest s e)) (snd (shortest s e))
      else unsigned_toString (fst (shortest s e)) (snd (shortest s e)))"

subsubsection \<open>Converting a string to a number\<close>

definition DecimalDigit :: "code_unit \<Rightarrow> bool" where
  "DecimalDigit c \<longleftrightarrow> 0x30 \<le> c \<and> c \<le> 0x39"

definition digit_value :: "code_unit \<Rightarrow> nat" where
  "digit_value c =
     (if 0x30 \<le> c \<and> c \<le> 0x39 then unat c - 0x30
      else if 0x61 \<le> c \<and> c \<le> 0x66 then unat c - 0x61 + 10
      else unat c - 0x41 + 10)"

definition HexDigit :: "code_unit \<Rightarrow> bool" where
  "HexDigit c \<longleftrightarrow>
     (0x30 \<le> c \<and> c \<le> 0x39) \<or> (0x61 \<le> c \<and> c \<le> 0x66) \<or> (0x41 \<le> c \<and> c \<le> 0x46)"

definition OctalDigit :: "code_unit \<Rightarrow> bool" where
  "OctalDigit c \<longleftrightarrow> 0x30 \<le> c \<and> c \<le> 0x37"

definition BinaryDigit :: "code_unit \<Rightarrow> bool" where
  "BinaryDigit c \<longleftrightarrow> c = 0x30 \<or> c = 0x31"

definition digits_value :: "nat \<Rightarrow> jsstring \<Rightarrow> nat" where
  "digits_value radix ds = foldl (\<lambda>acc c. acc * radix + digit_value c) 0 ds"

definition DecimalDigits :: "jsstring \<Rightarrow> nat option" where
  "DecimalDigits s =
     (if s \<noteq> [] \<and> list_all DecimalDigit s then Some (digits_value 10 s) else None)"

definition SignedInteger :: "jsstring \<Rightarrow> int option" where
  "SignedInteger s =
     (case s of
        [] \<Rightarrow> None
      | c # ds \<Rightarrow>
          if c = 0x2B then map_option int (DecimalDigits ds)
          else if c = 0x2D then map_option (\<lambda>n. - int n) (DecimalDigits ds)
          else map_option int (DecimalDigits s))"

text \<open>
  \<open>split_at P s\<close> cuts \<open>s\<close> at its first code unit that satisfies \<open>P\<close>: the part
  before it and, when there is one, the part after it.
\<close>

definition split_at :: "(code_unit \<Rightarrow> bool) \<Rightarrow> jsstring \<Rightarrow> jsstring \<times> jsstring option" where
  "split_at P s =
     (case dropWhile (\<lambda>c. \<not> P c) s of
        [] \<Rightarrow> (s, None)
      | c # rest \<Rightarrow> (takeWhile (\<lambda>c. \<not> P c) s, Some rest))"

text \<open>
  The mathematical value of a \<open>StrUnsignedDecimalLiteral\<close> other than \<open>Infinity\<close>, as
  a coefficient and a decimal exponent: digits with an optional fraction and an optional
  exponent part, at least one digit before or after the point.
\<close>

definition StrUnsignedDecimalLiteral :: "jsstring \<Rightarrow> (nat \<times> int) option" where
  "StrUnsignedDecimalLiteral s =
     (let (m, ex) = split_at (\<lambda>c. c = 0x65 \<or> c = 0x45) s;
          (ip, fp) = split_at (\<lambda>c. c = 0x2E) m
      in case (case ex of None \<Rightarrow> Some 0 | Some x \<Rightarrow> SignedInteger x) of
           None \<Rightarrow> None
         | Some e \<Rightarrow>
             (case fp of
                None \<Rightarrow> map_option (\<lambda>n. (n, e)) (DecimalDigits ip)
              | Some f \<Rightarrow>
                  if (ip = [] \<and> f = []) \<or> \<not> list_all DecimalDigit (ip @ f) then None
                  else Some (digits_value 10 (ip @ f), e - int (length f))))"

text \<open>\<open>0x\<close>, \<open>0o\<close> and \<open>0b\<close> literals: a prefix and at least one digit of the radix.\<close>

definition NonDecimalIntegerLiteral :: "jsstring \<Rightarrow> nat option" where
  "NonDecimalIntegerLiteral s =
     (case s of
        z # p # ds \<Rightarrow>
          if z \<noteq> 0x30 \<or> ds = [] then None
          else if (p = 0x78 \<or> p = 0x58) \<and> list_all HexDigit ds then Some (digits_value 16 ds)
          else if (p = 0x6F \<or> p = 0x4F) \<and> list_all OctalDigit ds then Some (digits_value 8 ds)
          else if (p = 0x62 \<or> p = 0x42) \<and> list_all BinaryDigit ds then Some (digits_value 2 ds)
          else None
      | _ \<Rightarrow> None)"

definition negate :: "number \<Rightarrow> number" where
  "negate x =
     (case x of
        NaN \<Rightarrow> NaN
      | PosInfinity \<Rightarrow> NegInfinity
      | NegInfinity \<Rightarrow> PosInfinity
      | Finite neg s e \<Rightarrow> Finite (\<not> neg) s e)"

text \<open>
  The value of an unsigned literal. \<open>rnd\<close> is the host's rounding of a mathematical
  value to a number (\<open>RoundMVResult\<close>); nothing is assumed of it.
\<close>

definition StrUnsignedValue :: "(number \<Rightarrow> number) \<Rightarrow> jsstring \<Rightarrow> number" where
  "StrUnsignedValue rnd s =
     (if s = ascii ''Infinity'' then PosInfinity
      else case StrUnsignedDecimalLiteral s of
             Some (c, e) \<Rightarrow> rnd (Finite False c e)
           | None \<Rightarrow> NaN)"

text \<open>
  \<open>StringToNumber\<close>, the conversion that the unary \<open>+\<close> applies to a string: white
  space around the literal is dropped, the empty literal is \<open>+0\<close>, a sign is allowed
  before a decimal literal only, and a string that is no literal is \<open>NaN\<close>.
\<close>

definition StringToNumber :: "(number \<Rightarrow> number) \<Rightarrow> jsstring \<Rightarrow> number" where
  "StringToNumber rnd str =
     (let s = trim str in
      case s of
        [] \<Rightarrow> Finite False 0 0
      | c # cs \<Rightarrow>
          (case NonDecimalIntegerLiteral s of
             Some n \<Rightarrow> rnd (Finite False n 0)
           | None \<Rightarrow>
               if c = 0x2B then StrUnsignedValue rnd cs
               else if c = 0x2D then negate (StrUnsignedValue rnd cs)
               else StrUnsignedValue rnd s))"

section \<open>The data model\<close>

datatype ProjectStatus = Active | Finished

text \<open>The class \<open>Project\<close>; its field \<open>id\<close> is \<open>ident\<close> here.\<close>

record Project =
  ident :: jsstring
  title :: jsstring
  description :: jsstring
  people :: number
  status :: ProjectStatus

subsection \<open>Objects and arrays\<close>

text \<open>
  \<open>Project\<close> instances and arrays of them are mutable and shared by reference: the
  store hands out arrays, and \<open>moveProject\<close> writes to a \<open>Project\<close> that earlier
  arrays still hold. The heap maps a reference to the object or to the array it denotes;
  \<open>fresh\<close> is the next reference to hand out. An array holds references to projects.
\<close>

type_synonym ref = nat

record heap =
  objects :: "ref \<rightharpoonup> Project"
  arrays :: "ref \<rightharpoonup> ref list"
  fresh :: ref

definition empty_heap :: heap where
  "empty_heap = \<lparr>objects = Map.empty, arrays = Map.empty, fresh = 0\<rparr>"

definition new_Project :: "Project \<Rightarrow> heap \<Rightarrow> ref \<times> heap" where
  "new_Project p h =
     (fresh h, h\<lparr>objects := (objects h)(fresh h \<mapsto> p), fresh := Suc (fresh h)\<rparr>)"

definition new_Array :: "ref list \<Rightarrow> heap \<Rightarrow> ref \<times> heap" where
  "new_Array rs h =
     (fresh h, h\<lparr>arrays := (arrays h)(fresh h \<mapsto> rs), fresh := Suc (fresh h)\<rparr>)"

text \<open>
  The elements of an array. A reference of the program never dangles, so the first case
  is met by no state the program reaches (\<open>well_formed\<close> below).
\<close>

definition elements :: "heap \<Rightarrow> ref \<Rightarrow> ref list" where
  "elements h a = (case arrays h a of None \<Rightarrow> [] | Some rs \<Rightarrow> rs)"

text \<open>\<open>Array.prototype.push\<close> and \<open>Array.prototype.slice\<close> without arguments.\<close>

definition push :: "ref \<Rightarrow> ref \<Rightarrow> heap \<Rightarrow> heap" where
  "push a r h =
     (case arrays h a of
        None \<Rightarrow> h
      | Some rs \<Rightarrow> h\<lparr>arrays := (arrays h)(a \<mapsto> rs @ [r])\<rparr>)"

definition slice_copy :: "ref \<Rightarrow> heap \<Rightarrow> ref \<times> heap" where
  "slice_copy a h = new_Array (elements h a) h"

text \<open>The projects that an array holds, in order, as they are in the heap.\<close>

definition contents :: "heap \<Rightarrow> ref \<Rightarrow> Project list" where
  "contents h a = List.map_filter (objects h) (elements h a)"

section \<open>The store\<close>

text \<open>
  The classes \<open>State\<close> and \<open>ProjectState\<close>. A listener is a callback of the program;
  the store only keeps it and calls it, so it is a value of any type \<open>'l\<close>, and a call
  is recorded as the listener with the array passed to it. One run of
  \<open>updateListeners\<close> is one notification: the calls it makes, in order. The listeners
  that the program registers are those of its two project lists (\<open>relevantProjects\<close>
  below); they read the array they are given and write to their own list only, so a call
  leaves the store as it is.
\<close>

record 'l ProjectState =
  listeners :: "'l list"
  projects :: ref

type_synonym 'l notification = "('l \<times> ref) list"

definition new_ProjectState :: "heap \<Rightarrow> 'l ProjectState \<times> heap" where
  "new_ProjectState h =
     (let (a, h1) = new_Array [] h in (\<lparr>listeners = [], projects = a\<rparr>, h1))"

definition addListener :: "'l \<Rightarrow> 'l ProjectState \<Rightarrow> 'l ProjectState" where
  "addListener listenerFn st = st\<lparr>listeners := listeners st @ [listenerFn]\<rparr>"

fun call_listeners :: "'l list \<Rightarrow> ref \<Rightarrow> heap \<Rightarrow> 'l notification \<times> heap" where
  "call_listeners [] a h = ([], h)"
| "call_listeners (listenerFn # rest) a h =
     (let (copy, h1) = slice_copy a h;
          (calls, h2) = call_listeners rest a h1
      in ((listenerFn, copy) # calls, h2))"

definition updateListeners :: "'l ProjectState \<Rightarrow> heap \<Rightarrow> 'l notification \<times> heap" where
  "updateListeners st h = call_listeners (listeners st) (projects st) h"

text \<open>
  \<open>addProjects\<close>; \<open>random\<close> is the number that \<open>Math.random()\<close> returns in this
  call. The result is the notifications made and the heap after the call.
\<close>

definition addProjects ::
  "number \<Rightarrow> jsstring \<Rightarrow> jsstring \<Rightarrow> number \<Rightarrow> 'l ProjectState \<Rightarrow> heap \<Rightarrow>
   'l notification list \<times> heap" where
  "addProjects random title' description' people' st h =
     (let (newProject, h1) =
            new_Project \<lparr>ident = number_toString random, title = title',
                         description = description', people = people',
                         status = Active\<rparr> h;
          h2 = push (projects st) newProject h1;
          (n, h3) = updateListeners st h2
      in ([n], h3))"

definition has_id :: "heap \<Rightarrow> jsstring \<Rightarrow> ref \<Rightarrow> bool" where
  "has_id h projectId el = (case objects h el of None \<Rightarrow> False | Some p \<Rightarrow> ident p = projectId)"

definition moveProject ::
  "jsstring \<Rightarrow> ProjectStatus \<Rightarrow> 'l ProjectState \<Rightarrow> heap \<Rightarrow> 'l notification list \<times> heap" where
  "moveProject projectId newStatus st h =
     (case find (has_id h projectId) (elements h (projects st)) of
        None \<Rightarrow> ([], h)
      | Some project \<Rightarrow>
          (case objects h project of
             None \<Rightarrow> ([], h)
           | Some p \<Rightarrow>
               if status p \<noteq> newStatus then
                 (let h1 = h\<lparr>objects := (objects h)(project \<mapsto> p\<lparr>status := newStatus\<rparr>)\<rparr>;
                      (n, h2) = updateListeners st h1
                  in ([n], h2))
               else ([], h)))"

text \<open>
  The states the program reaches: the store's array exists and holds distinct references
  to existing projects, and every reference in use is below \<open>fresh\<close>.
\<close>

definition well_formed :: "'l ProjectState \<Rightarrow> heap \<Rightarrow> bool" where
  "well_formed st h \<longleftrightarrow>
     projects st < fresh h \<and>
     (case arrays h (projects st) of
        None \<Rightarrow> False
      | Some rs \<Rightarrow> distinct rs \<and> list_all (\<lambda>r. r < fresh h \<and> objects h r \<noteq> None) rs)"

text \<open>
  The two operations of the store as data, to speak of every operation and of every
  sequence of them.
\<close>

datatype store_op =
    AddProject number jsstring jsstring number
  | MoveProject jsstring ProjectStatus

fun perform :: "store_op \<Rightarrow> 'l ProjectState \<Rightarrow> heap \<Rightarrow> 'l notification list \<times> heap" where
  "perform (AddProject random title' description' people') st h =
     addProjects random title' description' people' st h"
| "perform (MoveProject projectId newStatus) st h = moveProject projectId newStatus st h"

fun perform_all :: "store_op list \<Rightarrow> 'l ProjectState \<Rightarrow> heap \<Rightarrow> 'l notification list \<times> heap" where
  "perform_all [] st h = ([], h)"
| "perform_all (op # ops) st h =
     (let (ns, h1) = perform op st h;
          (ms, h2) = perform_all ops st h1
      in (ns @ ms, h2))"

section \<open>Validation\<close>

text \<open>
  The interface \<open>Validatable\<close>: \<open>value\<close> is a string or a number (the field is
  \<open>value'\<close> here, and \<open>min\<close> and \<open>max\<close> are \<open>min'\<close> and \<open>max'\<close>); an optional
  field that is absent is \<open>None\<close>.
\<close>

datatype string_or_number = Str jsstring | Num number

record Validatable =
  value' :: string_or_number
  required :: "bool option"
  minLength :: "number option"
  maxLength :: "number option"
  min' :: "number option"
  max' :: "number option"

definition toString :: "string_or_number \<Rightarrow> jsstring" where
  "toString v = (case v of Str s \<Rightarrow> s | Num x \<Rightarrow> number_toString x)"

definition validator :: "Validatable \<Rightarrow> bool" where
  "validator arg =
     (let isValid = True;
          isValid =
            (if required arg = Some True
             then isValid \<and> length (trim (toString (value' arg))) \<noteq> 0
             else isValid);
          isValid =
            (case (minLength arg, value' arg) of
               (Some m, Str s) \<Rightarrow> isValid \<and> ge_number (number_of_nat (length s)) m
             | _ \<Rightarrow> isValid);
          isValid =
            (case (maxLength arg, value' arg) of
               (Some m, Str s) \<Rightarrow> isValid \<and> le_number (number_of_nat (length s)) m
             | _ \<Rightarrow> isValid);
          isValid =
            (case (min' arg, value' arg) of
               (Some m, Num x) \<Rightarrow> isValid \<and> ge_number x m
             | _ \<Rightarrow> isValid);
          isValid =
            (case (max' arg, value' arg) of
               (Some m, Num x) \<Rightarrow> isValid \<and> le_number x m
             | _ \<Rightarrow> isValid)
      in isValid)"

section \<open>The views\<close>

subsection \<open>The project lists\<close>

text \<open>
  A \<open>ProjectList\<close> is made for \<open>"active"\<close> or for \<open>"finished"\<close>. Its listener
  selects, from the sequence the store passes to it, the projects of its own status.
\<close>

datatype list_type = active | finished

definition relevantProjects :: "list_type \<Rightarrow> Project list \<Rightarrow> Project list" where
  "relevantProjects type projects' =
     filter (\<lambda>proj. if type = active then status proj = Active
                     else status proj = Finished) projects'"

subsection \<open>The form\<close>

text \<open>The three input elements of \<open>ProjectInput\<close>, each with the string it holds.\<close>

record ProjectInput =
  titleElement :: jsstring
  descriptionElement :: jsstring
  peopleElement :: jsstring

text \<open>
  \<open>gatherUserInput\<close> returns what \<open>alert\<close> returns, after the alert with the
  message given here as \<open>Inl\<close>, or the three values as \<open>Inr\<close>.
\<close>

definition gatherUserInput ::
  "(number \<Rightarrow> number) \<Rightarrow> ProjectInput \<Rightarrow> jsstring + (jsstring \<times> jsstring \<times> number)" where
  "gatherUserInput rnd inp =
     (let title' = titleElement inp;
          description' = descriptionElement inp;
          people' = peopleElement inp
      in if \<not> validator \<lparr>value' = Str title', required = Some True, minLength = None,
                          maxLength = None, min' = None, max' = None\<rparr> \<or>
            \<not> validator \<lparr>value' = Str description', required = Some True,
                          minLength = Some (Finite False 5 0), maxLength = None,
                          min' = None, max' = None\<rparr> \<or>
            \<not> validator \<lparr>value' = Num (StringToNumber rnd people'), required = Some True,
                          minLength = None, maxLength = None,
                          min' = Some (Finite False 0 0), max' = Some (Finite False 5 0)\<rparr>
         then Inl (ascii ''Invalid input!'')
         else Inr (title', description', StringToNumber rnd people'))"

definition clearInputs :: "ProjectInput \<Rightarrow> ProjectInput" where
  "clearInputs inp = inp\<lparr>titleElement := [], descriptionElement := [], peopleElement := []\<rparr>"

section \<open>The program\<close>

text \<open>
  The state of the page: the form, the store with the heap its arrays and projects live
  in, and the alerts shown so far. The listeners of the store are the two project lists.
\<close>

record app =
  projInput :: ProjectInput
  projectState :: "list_type ProjectState"
  memory :: heap
  alerts :: "jsstring list"

definition handleSubmit ::
  "(number \<Rightarrow> number) \<Rightarrow> number \<Rightarrow> app \<Rightarrow> list_type notification list \<times> app" where
  "handleSubmit rnd random w =
     (case gatherUserInput rnd (projInput w) of
        Inl message \<Rightarrow> ([], w\<lparr>alerts := alerts w @ [message]\<rparr>)
      | Inr (title', description', people') \<Rightarrow>
          (let (ns, h) = addProjects random title' description' people'
                           (projectState w) (memory w)
           in (ns, w\<lparr>memory := h, projInput := clearInputs (projInput w)\<rparr>)))"

definition dropHandler ::
  "list_type \<Rightarrow> jsstring \<Rightarrow> app \<Rightarrow> list_type notification list \<times> app" where
  "dropHandler type projectId w =
     (let (ns, h) = moveProject projectId (if type = active then Active else Finished)
                      (projectState w) (memory w)
      in (ns, w\<lparr>memory := h\<rparr>))"

text \<open>
  The page after the script has run: the store, the form, then the active and the
  finished list, each registering its listener.
\<close>

definition program_start :: app where
  "program_start =
     (let (st, h) = new_ProjectState empty_heap
      in \<lparr>projInput = \<lparr>titleElement = [], descriptionElement = [], peopleElement = []\<rparr>,
          projectState = addListener finished (addListener active st),
          memory = h, alerts = []\<rparr>)"

text \<open>
  What a user does: fill in the form, submit it (with the number \<open>Math.random()\<close>
  returns then), or drop a dragged text on one of the lists.
\<close>

datatype event = Input ProjectInput | Submit number | Drop list_type jsstring

fun handle :: "(number \<Rightarrow> number) \<Rightarrow> event \<Rightarrow> app \<Rightarrow> list_type notification list \<times> app" where
  "handle rnd (Input inp) w = ([], w\<lparr>projInput := inp\<rparr>)"
| "handle rnd (Submit random) w = handleSubmit rnd random w"
| "handle rnd (Drop type projectId) w = dropHandler type projectId w"

fun run :: "(number \<Rightarrow> number) \<Rightarrow> event list \<Rightarrow> app \<Rightarrow> app" where
  "run rnd [] w = w"
| "run rnd (ev # evs) w = run rnd evs (snd (handle rnd ev w))"

text \<open>The projects of the store, in the order of its array.\<close>

definition store_projects :: "app \<Rightarrow> Project list" where
  "store_projects w = contents (memory w) (projects (projectState w))"

text \<open>
  The team size in the words of the specification, a positive integer: a finite number
  above zero with no fractional part.
\<close>

definition positive_integer :: "number \<Rightarrow> bool" where
  "positive_integer x =
     (case x of
        Finite neg s e \<Rightarrow> \<not> neg \<and> 0 < s \<and> (0 \<le> e \<or> s mod 10 ^ nat (- e) = 0)
      | _ \<Rightarrow> False)"

section \<open>A session of the page\<close>

text \<open>
  The form filled in with a title, a description and three people, the same form with
  the people field left empty, with 0 and with 7 in it, and the page after the first form
  was submitted while \<open>Math.random()\<close> returned 0.5, with a host that rounds no literal
  (\<open>id\<close>).
\<close>

definition build_api :: ProjectInput where
  "build_api =
     \<lparr>titleElement = ascii ''Build API'',
      descriptionElement = ascii ''Design and build the REST API'',
      peopleElement = ascii ''3''\<rparr>"

definition no_people :: ProjectInput where
  "no_people =
     \<lparr>titleElement = ascii ''Build API'',
      descriptionElement = ascii ''Design and build the REST API'',
      peopleElement = []\<rparr>"

definition zero_people :: ProjectInput where
  "zero_people =
     \<lparr>titleElement = ascii ''Build API'',
      descriptionElement = ascii ''Design and build the REST API'',
      peopleElement = ascii ''0''\<rparr>"

definition seven_people :: ProjectInput where
  "seven_people =
     \<lparr>titleElement = ascii ''Build API'',
      descriptionElement = ascii ''Design and build the REST API'',
      peopleElement = ascii ''7''\<rparr>"

definition one_project :: app where
  "one_project = run id [Input build_api, Submit (Finite False 5 (- 1))] program_start"

section \<open>Lemmas\<close>

subsection \<open>Arrays and copies\<close>

lemma slice_eq:
  "slice_copy a h =
     (fresh h, h\<lparr>arrays := (arrays h)(fresh h \<mapsto> elements h a), fresh := Suc (fresh h)\<rparr>)"
  by (simp add: slice_copy_def new_Array_def)

lemma call_listeners_objects:
  "call_listeners ls a h = (n, h') \<Longrightarrow> objects h' = objects h"
  by (induction ls arbitrary: h n h') (auto simp: slice_eq split: prod.splits)

lemma call_listeners_fresh:
  "call_listeners ls a h = (n, h') \<Longrightarrow> fresh h' = fresh h + length ls"
  by (induction ls arbitrary: h n h') (auto simp: slice_eq split: prod.splits)

lemma call_listeners_old:
  "call_listeners ls a h = (n, h') \<Longrightarrow> r < fresh h \<Longrightarrow> arrays h' r = arrays h r"
  by (induction ls arbitrary: h n h') (fastforce simp: slice_eq split: prod.splits)+

lemma call_listeners_fst:
  "call_listeners ls a h = (n, h') \<Longrightarrow> map fst n = ls"
  by (induction ls arbitrary: h n h') (auto simp: slice_eq split: prod.splits)

lemma call_listeners_snd:
  "call_listeners ls a h = (n, h') \<Longrightarrow> map snd n = [fresh h ..< fresh h + length ls]"
proof (induction ls arbitrary: h n h')
  case Nil
  then show ?case by simp
next
  case (Cons l ls)
  obtain cs h2 where r: "call_listeners ls a (snd (slice_copy a h)) = (cs, h2)"
    by (cases "call_listeners ls a (snd (slice_copy a h))")
  from Cons.prems r have n: "n = (l, fresh h) # cs"
    by (simp add: slice_eq)
  from Cons.IH [OF r] have "map snd cs = [Suc (fresh h) ..< Suc (fresh h) + length ls]"
    by (simp add: slice_eq)
  moreover have "[fresh h ..< fresh h + length (l # ls)] =
      fresh h # [Suc (fresh h) ..< Suc (fresh h) + length ls]"
    by (simp add: upt_conv_Cons del: upt_Suc)
  ultimately show ?case
    by (simp add: n del: upt_Suc)
qed

lemma elements_after_slice:
  "a < fresh h \<Longrightarrow> elements (snd (slice_copy a' h)) a = elements h a"
  by (simp add: slice_eq elements_def)

lemma call_listeners_copy:
  "call_listeners ls a h = (n, h') \<Longrightarrow> a < fresh h \<Longrightarrow> c \<in> snd ` set n \<Longrightarrow>
     arrays h' c = Some (elements h a)"
proof (induction ls arbitrary: h n h')
  case Nil
  then show ?case by simp
next
  case (Cons l ls)
  obtain cs h2 where r: "call_listeners ls a (snd (slice_copy a h)) = (cs, h2)"
    by (cases "call_listeners ls a (snd (slice_copy a h))")
  from Cons.prems(1) r have n: "n = (l, fresh h) # cs" and h': "h' = h2"
    by (simp_all add: slice_eq)
  have a1: "a < fresh (snd (slice_copy a h))"
    using Cons.prems(2) by (simp add: slice_eq)
  show ?case
  proof (cases "c = fresh h")
    case True
    have "arrays h2 (fresh h) = arrays (snd (slice_copy a h)) (fresh h)"
      by (rule call_listeners_old [OF r]) (simp add: slice_eq)
    then show ?thesis by (simp add: True h' slice_eq)
  next
    case False
    with Cons.prems(3) have "c \<in> snd ` set cs" by (auto simp: n)
    from Cons.IH [OF r a1 this] show ?thesis
      using Cons.prems(2) by (simp add: h' elements_after_slice)
  qed
qed

text \<open>What one notification does to the heap and what it passes on.\<close>

lemma updateListeners_effect:
  assumes "updateListeners st h = (n, h')" and "projects st < fresh h"
  shows "objects h' = objects h"
    and "fresh h' = fresh h + length (listeners st)"
    and "\<And>r. r < fresh h \<Longrightarrow> arrays h' r = arrays h r"
    and "map fst n = listeners st"
    and "map snd n = [fresh h ..< fresh h + length (listeners st)]"
    and "\<And>c. c \<in> snd ` set n \<Longrightarrow> arrays h' c = Some (elements h (projects st))"
    and "distinct (map snd n)"
    and "\<And>c. c \<in> snd ` set n \<Longrightarrow> fresh h \<le> c"
proof -
  from assms(1) have c: "call_listeners (listeners st) (projects st) h = (n, h')"
    by (simp add: updateListeners_def)
  have s: "map snd n = [fresh h ..< fresh h + length (listeners st)]"
    by (rule call_listeners_snd [OF c])
  show "distinct (map snd n)"
    by (simp only: s distinct_upt)
  have "set (map snd n) = {fresh h ..< fresh h + length (listeners st)}"
    by (simp only: s set_upt)
  then show "\<And>c. c \<in> snd ` set n \<Longrightarrow> fresh h \<le> c"
    by (simp only: set_map) simp
  show "objects h' = objects h" by (rule call_listeners_objects [OF c])
  show "fresh h' = fresh h + length (listeners st)" by (rule call_listeners_fresh [OF c])
  show "\<And>r. r < fresh h \<Longrightarrow> arrays h' r = arrays h r" by (rule call_listeners_old [OF c])
  show "map fst n = listeners st" by (rule call_listeners_fst [OF c])
  show "map snd n = [fresh h ..< fresh h + length (listeners st)]"
    by (rule call_listeners_snd [OF c])
  show "\<And>c. c \<in> snd ` set n \<Longrightarrow> arrays h' c = Some (elements h (projects st))"
    by (rule call_listeners_copy [OF c assms(2)])
qed

subsection \<open>The projects of an array\<close>

lemma map_filter_allocated:
  "list_all (\<lambda>r. f r \<noteq> None) rs \<Longrightarrow> List.map_filter f rs = map (\<lambda>r. the (f r)) rs"
  by (induction rs) (auto simp: map_filter_simps)

lemma map_filter_agree:
  "(\<And>r. r \<in> set rs \<Longrightarrow> f r = g r) \<Longrightarrow> List.map_filter f rs = List.map_filter g rs"
  by (induction rs) (auto simp: map_filter_simps split: option.splits)

lemma wf_elements: "well_formed st h \<Longrightarrow> arrays h (projects st) = Some (elements h (projects st))"
  by (auto simp: well_formed_def elements_def split: option.splits)

lemma wf_distinct: "well_formed st h \<Longrightarrow> distinct (elements h (projects st))"
  by (auto simp: well_formed_def elements_def split: option.splits)

lemma wf_allocated:
  "well_formed st h \<Longrightarrow> r \<in> set (elements h (projects st)) \<Longrightarrow> r < fresh h \<and> objects h r \<noteq> None"
  by (auto simp: well_formed_def elements_def list_all_iff split: option.splits)

lemma wf_projects: "well_formed st h \<Longrightarrow> projects st < fresh h"
  by (simp add: well_formed_def)

lemma wf_contents:
  "well_formed st h \<Longrightarrow> contents h (projects st) = map (\<lambda>r. the (objects h r)) (elements h (projects st))"
  unfolding contents_def
  by (rule map_filter_allocated) (auto simp: list_all_iff dest: wf_allocated)

lemma well_formedI:
  "projects st < fresh h \<Longrightarrow> arrays h (projects st) = Some rs \<Longrightarrow> distinct rs \<Longrightarrow>
   (\<And>r. r \<in> set rs \<Longrightarrow> r < fresh h \<and> objects h r \<noteq> None) \<Longrightarrow> well_formed st h"
  by (auto simp: well_formed_def list_all_iff)

subsection \<open>The effect of \<open>addProjects\<close>\<close>

lemma addProjects_unfold:
  fixes random t d p
  assumes "well_formed st h"
  defines "newp \<equiv> \<lparr>ident = number_toString random, title = t, description = d,
                      people = p, status = Active\<rparr>"
  defines "h2 \<equiv> h\<lparr>objects := (objects h)(fresh h \<mapsto> newp), fresh := Suc (fresh h),
                    arrays := (arrays h)(projects st \<mapsto> elements h (projects st) @ [fresh h])\<rparr>"
  shows "addProjects random t d p st h =
           ([fst (updateListeners st h2)], snd (updateListeners st h2))"
  using wf_elements [OF assms(1)]
  by (simp add: addProjects_def new_Project_def push_def newp_def h2_def split: prod.splits)

lemma addProjects_effect:
  fixes random t d p
  assumes "well_formed st h" and "addProjects random t d p st h = (ns, h')"
  defines "newp \<equiv> \<lparr>ident = number_toString random, title = t, description = d,
                      people = p, status = Active\<rparr>"
  shows "arrays h' (projects st) = Some (elements h (projects st) @ [fresh h])"
    and "objects h' = (objects h)(fresh h \<mapsto> newp)"
    and "fresh h' = Suc (fresh h) + length (listeners st)"
    and "\<exists>n. ns = [n] \<and> map fst n = listeners st \<and> distinct (map snd n) \<and>
           (\<forall>c \<in> snd ` set n. fresh h \<le> c \<and>
              arrays h' c = Some (elements h (projects st) @ [fresh h]))"
proof -
  define h2 where "h2 = h\<lparr>objects := (objects h)(fresh h \<mapsto> newp), fresh := Suc (fresh h),
                    arrays := (arrays h)(projects st \<mapsto> elements h (projects st) @ [fresh h])\<rparr>"
  obtain n h3 where u: "updateListeners st h2 = (n, h3)"
    by (cases "updateListeners st h2")
  from addProjects_unfold [OF assms(1), of random t d p] assms(2) u
  have ns: "ns = [n]" and h': "h' = h3"
    by (simp_all add: h2_def newp_def)
  have a: "projects st < fresh h2"
    using wf_projects [OF assms(1)] by (simp add: h2_def)
  note e = updateListeners_effect [OF u a]
  have el2: "elements h2 (projects st) = elements h (projects st) @ [fresh h]"
    by (simp add: h2_def elements_def)
  show "arrays h' (projects st) = Some (elements h (projects st) @ [fresh h])"
    using e(3) [OF a] by (simp add: h' h2_def)
  show "objects h' = (objects h)(fresh h \<mapsto> newp)"
    using e(1) by (simp add: h' h2_def)
  show "fresh h' = Suc (fresh h) + length (listeners st)"
    using e(2) by (simp add: h' h2_def)
  have "fresh h \<le> c \<and> arrays h' c = Some (elements h (projects st) @ [fresh h])"
    if "c \<in> snd ` set n" for c
    using e(6) [OF that] e(8) [OF that] el2 by (simp add: h' h2_def)
  with e(4,7) show "\<exists>n. ns = [n] \<and> map fst n = listeners st \<and> distinct (map snd n) \<and>
           (\<forall>c \<in> snd ` set n. fresh h \<le> c \<and>
              arrays h' c = Some (elements h (projects st) @ [fresh h]))"
    by (simp add: ns)
qed

lemma addProjects_wf:
  assumes "well_formed st h" and "addProjects random t d p st h = (ns, h')"
  shows "well_formed st h'"
proof (rule well_formedI)
  note e = addProjects_effect [OF assms]
  show "projects st < fresh h'"
    using wf_projects [OF assms(1)] e(3) by simp
  show "arrays h' (projects st) = Some (elements h (projects st) @ [fresh h])"
    by (rule e(1))
  show "distinct (elements h (projects st) @ [fresh h])"
    using wf_distinct [OF assms(1)] wf_allocated [OF assms(1)] by auto
  fix r assume "r \<in> set (elements h (projects st) @ [fresh h])"
  then show "r < fresh h' \<and> objects h' r \<noteq> None"
    using wf_allocated [OF assms(1), of r] e(2,3) by auto
qed

lemma addProjects_elements:
  assumes "well_formed st h" and "addProjects random t d p st h = (ns, h')"
  shows "elements h' (projects st) = elements h (projects st) @ [fresh h]"
  using addProjects_effect(1) [OF assms] by (simp add: elements_def)

lemma addProjects_old_objects:
  assumes "well_formed st h" and "addProjects random t d p st h = (ns, h')"
    and "r \<in> set (elements h (projects st))"
  shows "objects h' r = objects h r"
  using addProjects_effect(2) [OF assms(1,2)] wf_allocated [OF assms(1,3)] by simp

lemma addProjects_contents:
  assumes "well_formed st h" and "addProjects random t d p st h = (ns, h')"
  shows "contents h' (projects st) =
           contents h (projects st) @
           [\<lparr>ident = number_toString random, title = t, description = d, people = p,
             status = Active\<rparr>]"
proof -
  have "List.map_filter (objects h') (elements h (projects st)) =
        List.map_filter (objects h) (elements h (projects st))"
    by (rule map_filter_agree) (rule addProjects_old_objects [OF assms])
  then show ?thesis
    using addProjects_effect(2) [OF assms]
    by (simp add: contents_def addProjects_elements [OF assms] map_filter_def)
qed

subsection \<open>The effect of \<open>moveProject\<close>\<close>

lemma find_has_id:
  "list_all (\<lambda>r. objects h r \<noteq> None) rs \<Longrightarrow>
   find (\<lambda>q. ident q = projectId) (map (\<lambda>r. the (objects h r)) rs) =
     map_option (\<lambda>r. the (objects h r)) (find (has_id h projectId) rs)"
  by (induction rs) (auto simp: has_id_def)

lemma takeWhile_has_id:
  "list_all (\<lambda>r. objects h r \<noteq> None) rs \<Longrightarrow>
   length (takeWhile (\<lambda>q. ident q \<noteq> projectId) (map (\<lambda>r. the (objects h r)) rs)) =
     length (takeWhile (\<lambda>r. \<not> has_id h projectId r) rs)"
  by (induction rs) (auto simp: has_id_def)

lemma map_update_first:
  "distinct rs \<Longrightarrow> find Q rs = Some r \<Longrightarrow>
   map (\<lambda>x. the ((f(r \<mapsto> v)) x)) rs =
     (map (\<lambda>x. the (f x)) rs)[length (takeWhile (\<lambda>x. \<not> Q x) rs) := v]"
proof (induction rs)
  case Nil
  then show ?case by simp
next
  case (Cons x xs)
  show ?case
  proof (cases "Q x")
    case True
    with Cons.prems have "r = x" and "x \<notin> set xs" by simp_all
    then show ?thesis using True by (auto intro: map_cong)
  next
    case False
    with Cons.prems have f: "find Q xs = Some r" and d: "distinct xs" by simp_all
    from f have "r \<in> set xs" by (auto simp: find_Some_iff)
    with Cons.prems(1) have "x \<noteq> r" by auto
    with Cons.IH [OF d f] False show ?thesis by simp
  qed
qed

lemma wf_find_contents:
  assumes "well_formed st h"
  shows "find (\<lambda>q. ident q = projectId) (contents h (projects st)) =
           map_option (\<lambda>r. the (objects h r)) (find (has_id h projectId) (elements h (projects st)))"
  unfolding wf_contents [OF assms]
  by (rule find_has_id) (auto simp: list_all_iff dest: wf_allocated [OF assms])

lemma moveProject_absent:
  "find (has_id h projectId) (elements h (projects st)) = None \<Longrightarrow>
   moveProject projectId newStatus st h = ([], h)"
  by (simp add: moveProject_def)

lemma moveProject_same_status:
  "find (has_id h projectId) (elements h (projects st)) = Some r \<Longrightarrow>
   objects h r = Some p \<Longrightarrow> status p = newStatus \<Longrightarrow>
   moveProject projectId newStatus st h = ([], h)"
  by (simp add: moveProject_def)

lemma moveProject_other_status:
  "find (has_id h projectId) (elements h (projects st)) = Some r \<Longrightarrow>
   objects h r = Some p \<Longrightarrow> status p \<noteq> newStatus \<Longrightarrow>
   moveProject projectId newStatus st h =
     ([fst (updateListeners st (h\<lparr>objects := (objects h)(r \<mapsto> p\<lparr>status := newStatus\<rparr>)\<rparr>))],
      snd (updateListeners st (h\<lparr>objects := (objects h)(r \<mapsto> p\<lparr>status := newStatus\<rparr>)\<rparr>)))"
  by (simp add: moveProject_def split: prod.splits)

lemma moveProject_effect:
  assumes "well_formed st h"
    and "find (has_id h projectId) (elements h (projects st)) = Some r"
    and "objects h r = Some p" and "status p \<noteq> newStatus"
    and "moveProject projectId newStatus st h = (ns, h')"
  shows "objects h' = (objects h)(r \<mapsto> p\<lparr>status := newStatus\<rparr>)"
    and "arrays h' (projects st) = arrays h (projects st)"
    and "fresh h' = fresh h + length (listeners st)"
    and "\<exists>n. ns = [n] \<and> map fst n = listeners st \<and> distinct (map snd n) \<and>
           (\<forall>c \<in> snd ` set n. fresh h \<le> c \<and>
              arrays h' c = Some (elements h (projects st)))"
proof -
  define h1 where "h1 = h\<lparr>objects := (objects h)(r \<mapsto> p\<lparr>status := newStatus\<rparr>)\<rparr>"
  obtain n h2 where u: "updateListeners st h1 = (n, h2)"
    by (cases "updateListeners st h1")
  from moveProject_other_status [OF assms(2,3,4)] assms(5) u
  have ns: "ns = [n]" and h': "h' = h2"
    by (simp_all add: h1_def)
  have a: "projects st < fresh h1"
    using wf_projects [OF assms(1)] by (simp add: h1_def)
  note e = updateListeners_effect [OF u a]
  have el1: "elements h1 (projects st) = elements h (projects st)"
    by (simp add: h1_def elements_def)
  show "objects h' = (objects h)(r \<mapsto> p\<lparr>status := newStatus\<rparr>)"
    using e(1) by (simp add: h' h1_def)
  show "arrays h' (projects st) = arrays h (projects st)"
    using e(3) [OF a] by (simp add: h' h1_def)
  show "fresh h' = fresh h + length (listeners st)"
    using e(2) by (simp add: h' h1_def)
  have "fresh h \<le> c \<and> arrays h' c = Some (elements h (projects st))"
    if "c \<in> snd ` set n" for c
    using e(6) [OF that] e(8) [OF that] el1 by (simp add: h' h1_def)
  with e(4,7) show "\<exists>n. ns = [n] \<and> map fst n = listeners st \<and> distinct (map snd n) \<and>
           (\<forall>c \<in> snd ` set n. fresh h \<le> c \<and>
              arrays h' c = Some (elements h (projects st)))"
    by (simp add: ns)
qed

lemma moveProject_elements:
  assumes "well_formed st h" and "moveProject projectId newStatus st h = (ns, h')"
  shows "arrays h' (projects st) = arrays h (projects st)"
proof (cases "find (has_id h projectId) (elements h (projects st))")
  case None
  from moveProject_absent [OF None, of newStatus] assms(2) show ?thesis by simp
next
  case (Some r)
  then have "r \<in> set (elements h (projects st))" by (auto simp: find_Some_iff)
  from wf_allocated [OF assms(1) this] obtain p where p: "objects h r = Some p" by auto
  show ?thesis
  proof (cases "status p = newStatus")
    case True
    from moveProject_same_status [OF Some p True] assms(2) show ?thesis by simp
  next
    case False
    from moveProject_effect(2) [OF assms(1) Some p False assms(2)] show ?thesis .
  qed
qed

lemma moveProject_wf:
  assumes "well_formed st h" and "moveProject projectId newStatus st h = (ns, h')"
  shows "well_formed st h'"
proof (cases "find (has_id h projectId) (elements h (projects st))")
  case None
  from moveProject_absent [OF None, of newStatus] assms show ?thesis by simp
next
  case (Some r)
  then have "r \<in> set (elements h (projects st))" by (auto simp: find_Some_iff)
  from wf_allocated [OF assms(1) this] obtain p where p: "objects h r = Some p" by auto
  show ?thesis
  proof (cases "status p = newStatus")
    case True
    from moveProject_same_status [OF Some p True] assms show ?thesis by simp
  next
    case False
    note e = moveProject_effect [OF assms(1) Some p False assms(2)]
    show ?thesis
    proof (rule well_formedI)
      show "projects st < fresh h'" using wf_projects [OF assms(1)] e(3) by simp
      show "arrays h' (projects st) = Some (elements h (projects st))"
        using e(2) wf_elements [OF assms(1)] by simp
      show "distinct (elements h (projects st))" by (rule wf_distinct [OF assms(1)])
      fix x assume "x \<in> set (elements h (projects st))"
      from wf_allocated [OF assms(1) this] show "x < fresh h' \<and> objects h' x \<noteq> None"
        using e(1,3) by simp
    qed
  qed
qed

lemma moveProject_contents:
  assumes "well_formed st h"
    and "find (has_id h projectId) (elements h (projects st)) = Some r"
    and "objects h r = Some p" and "status p \<noteq> newStatus"
    and "moveProject projectId newStatus st h = (ns, h')"
  shows "contents h' (projects st) =
           (contents h (projects st))
             [length (takeWhile (\<lambda>q. ident q \<noteq> projectId) (contents h (projects st))) :=
                p\<lparr>status := newStatus\<rparr>]"
proof -
  note e = moveProject_effect [OF assms]
  have w': "well_formed st h'" by (rule moveProject_wf [OF assms(1,5)])
  have el: "elements h' (projects st) = elements h (projects st)"
    using e(2) by (simp add: elements_def)
  have al: "list_all (\<lambda>r. objects h r \<noteq> None) (elements h (projects st))"
    by (auto simp: list_all_iff dest: wf_allocated [OF assms(1)])
  have "contents h' (projects st) =
          map (\<lambda>x. the (((objects h)(r \<mapsto> p\<lparr>status := newStatus\<rparr>)) x)) (elements h (projects st))"
    by (simp add: wf_contents [OF w'] el e(1))
  also have "\<dots> = (map (\<lambda>x. the (objects h x)) (elements h (projects st)))
        [length (takeWhile (\<lambda>x. \<not> has_id h projectId x) (elements h (projects st))) :=
           p\<lparr>status := newStatus\<rparr>]"
    by (rule map_update_first [OF wf_distinct [OF assms(1)] assms(2)])
  finally show ?thesis
    by (simp add: wf_contents [OF assms(1)] takeWhile_has_id [OF al])
qed

lemma same_elements_contents:
  "elements h c = elements h a \<Longrightarrow> contents h c = contents h a"
  by (simp add: contents_def)

lemma moveProject_again:
  assumes "well_formed st h"
    and "find (has_id h projectId) (elements h (projects st)) = Some r"
    and "objects h r = Some p" and "status p \<noteq> newStatus"
    and "moveProject projectId newStatus st h = (ns, h')"
  shows "moveProject projectId newStatus st h' = ([], h')"
proof -
  note e = moveProject_effect [OF assms]
  have el: "elements h' (projects st) = elements h (projects st)"
    using e(2) by (simp add: elements_def)
  have "has_id h' projectId = has_id h projectId"
    using assms(3) e(1) by (auto simp: has_id_def fun_eq_iff)
  then have f: "find (has_id h' projectId) (elements h' (projects st)) = Some r"
    using assms(2) el by simp
  have o: "objects h' r = Some (p\<lparr>status := newStatus\<rparr>)"
    using e(1) by simp
  show ?thesis
    by (rule moveProject_same_status [OF f o]) simp
qed

lemma perform_notification:
  assumes "well_formed st h" and "perform op st h = (ns, h')" and "n \<in> set ns"
  shows "map fst n = listeners st \<and> distinct (map snd n) \<and>
         (\<forall>c \<in> snd ` set n. fresh h \<le> c \<and> arrays h' c = arrays h' (projects st))"
proof (cases op)
  case (AddProject random t d p)
  with assms(2) have a: "addProjects random t d p st h = (ns, h')" by simp
  note e = addProjects_effect [OF assms(1) a]
  from e(4) obtain n' where n': "ns = [n']" "map fst n' = listeners st" "distinct (map snd n')"
    "\<forall>c \<in> snd ` set n'. fresh h \<le> c \<and>
        arrays h' c = Some (elements h (projects st) @ [fresh h])" by blast
  from n'(1) assms(3) have "n = n'" by simp
  with n' e(1) show ?thesis by simp
next
  case (MoveProject projectId newStatus)
  with assms(2) have m: "moveProject projectId newStatus st h = (ns, h')" by simp
  show ?thesis
  proof (cases "find (has_id h projectId) (elements h (projects st))")
    case None
    from moveProject_absent [OF None, of newStatus] m assms(3) show ?thesis by simp
  next
    case (Some r)
    then have "r \<in> set (elements h (projects st))" by (auto simp: find_Some_iff)
    from wf_allocated [OF assms(1) this] obtain p where p: "objects h r = Some p" by auto
    show ?thesis
    proof (cases "status p = newStatus")
      case True
      from moveProject_same_status [OF Some p True] m assms(3) show ?thesis by simp
    next
      case False
      note e = moveProject_effect [OF assms(1) Some p False m]
      from e(4) obtain n' where n': "ns = [n']" "map fst n' = listeners st"
        "distinct (map snd n')"
        "\<forall>c \<in> snd ` set n'. fresh h \<le> c \<and> arrays h' c = Some (elements h (projects st))"
        by blast
      from n'(1) assms(3) have "n = n'" by simp
      with n' e(2) wf_elements [OF assms(1)] show ?thesis by simp
    qed
  qed
qed

subsection \<open>Sequences of operations\<close>

lemma perform_step:
  assumes "well_formed st h" and "perform op st h = (ns, h1)"
  shows "well_formed st h1"
    and "elements h1 (projects st) =
           elements h (projects st) @
           (case op of AddProject random t d p \<Rightarrow> [fresh h] | MoveProject projectId s \<Rightarrow> [])"
    and "\<And>r. r \<in> set (elements h (projects st)) \<Longrightarrow>
           \<exists>p p'. objects h r = Some p \<and> objects h1 r = Some p' \<and> p' = p\<lparr>status := status p'\<rparr>"
proof -
  have "well_formed st h1 \<and>
        elements h1 (projects st) =
           elements h (projects st) @
           (case op of AddProject random t d p \<Rightarrow> [fresh h] | MoveProject projectId s \<Rightarrow> []) \<and>
        (\<forall>r \<in> set (elements h (projects st)).
           \<exists>p p'. objects h r = Some p \<and> objects h1 r = Some p' \<and> p' = p\<lparr>status := status p'\<rparr>)"
  proof (cases op)
    case (AddProject random t d p)
    with assms(2) have a: "addProjects random t d p st h = (ns, h1)" by simp
    have "\<exists>q q'. objects h r = Some q \<and> objects h1 r = Some q' \<and> q' = q\<lparr>status := status q'\<rparr>"
      if r: "r \<in> set (elements h (projects st))" for r
    proof -
      from wf_allocated [OF assms(1) r] obtain q where "objects h r = Some q" by auto
      with addProjects_old_objects [OF assms(1) a r] show ?thesis by simp
    qed
    with addProjects_wf [OF assms(1) a] addProjects_elements [OF assms(1) a]
    show ?thesis by (simp add: AddProject)
  next
    case (MoveProject projectId newStatus)
    with assms(2) have m: "moveProject projectId newStatus st h = (ns, h1)" by simp
    have el: "elements h1 (projects st) = elements h (projects st)"
      using moveProject_elements [OF assms(1) m] by (simp add: elements_def)
    have "\<exists>q q'. objects h x = Some q \<and> objects h1 x = Some q' \<and> q' = q\<lparr>status := status q'\<rparr>"
      if x: "x \<in> set (elements h (projects st))" for x
    proof -
      from wf_allocated [OF assms(1) x] obtain q where q: "objects h x = Some q" by auto
      show ?thesis
      proof (cases "find (has_id h projectId) (elements h (projects st))")
        case None
        from moveProject_absent [OF None, of newStatus] m q show ?thesis by simp
      next
        case (Some r)
        then have "r \<in> set (elements h (projects st))" by (auto simp: find_Some_iff)
        from wf_allocated [OF assms(1) this] obtain p where p: "objects h r = Some p" by auto
        show ?thesis
        proof (cases "status p = newStatus")
          case True
          from moveProject_same_status [OF Some p True] m q show ?thesis by simp
        next
          case False
          from moveProject_effect(1) [OF assms(1) Some p False m] p q
          show ?thesis by (cases "x = r") simp_all
        qed
      qed
    qed
    with moveProject_wf [OF assms(1) m] el show ?thesis by (simp add: MoveProject)
  qed
  then show "well_formed st h1"
    and "elements h1 (projects st) =
           elements h (projects st) @
           (case op of AddProject random t d p \<Rightarrow> [fresh h] | MoveProject projectId s \<Rightarrow> [])"
    and "\<And>r. r \<in> set (elements h (projects st)) \<Longrightarrow>
           \<exists>p p'. objects h r = Some p \<and> objects h1 r = Some p' \<and> p' = p\<lparr>status := status p'\<rparr>"
    by blast+
qed

lemma perform_all_wf:
  "well_formed st h \<Longrightarrow> perform_all ops st h = (ns, h') \<Longrightarrow> well_formed st h'"
proof (induction ops arbitrary: h ns h')
  case Nil
  then show ?case by simp
next
  case (Cons op ops)
  obtain ns1 h1 where p: "perform op st h = (ns1, h1)" by (cases "perform op st h")
  obtain ms h2 where q: "perform_all ops st h1 = (ms, h2)" by (cases "perform_all ops st h1")
  from Cons.prems(2) p q have "h' = h2" by simp
  with Cons.IH [OF perform_step(1) [OF Cons.prems(1) p] q] show ?case by simp
qed

lemma perform_all_order:
  "well_formed st h \<Longrightarrow> perform_all ops st h = (ns, h') \<Longrightarrow>
   prefix (elements h (projects st)) (elements h' (projects st)) \<and>
   length (elements h' (projects st)) =
     length (elements h (projects st)) +
     length (filter (\<lambda>op. case op of AddProject random t d p \<Rightarrow> True
                                    | MoveProject projectId s \<Rightarrow> False) ops) \<and>
   (\<forall>r \<in> set (elements h (projects st)).
      \<exists>p p'. objects h r = Some p \<and> objects h' r = Some p' \<and> p' = p\<lparr>status := status p'\<rparr>)"
proof (induction ops arbitrary: h ns h')
  case Nil
  then show ?case
    by (auto dest: wf_allocated)
next
  case (Cons op ops)
  obtain ns1 h1 where p: "perform op st h = (ns1, h1)" by (cases "perform op st h")
  obtain ms h2 where q: "perform_all ops st h1 = (ms, h2)" by (cases "perform_all ops st h1")
  from Cons.prems(2) p q have h': "h' = h2" by simp
  note s = perform_step [OF Cons.prems(1) p]
  note IH = Cons.IH [OF s(1) q]
  from IH s(2) have pre: "prefix (elements h (projects st)) (elements h' (projects st))"
    by (auto simp: h' prefix_def)
  from IH s(2) have len: "length (elements h' (projects st)) =
      length (elements h (projects st)) +
      length (filter (\<lambda>op. case op of AddProject random t d p \<Rightarrow> True
                                     | MoveProject projectId s \<Rightarrow> False) (op # ops))"
    by (cases op) (simp_all add: h')
  have "\<exists>p p'. objects h r = Some p \<and> objects h' r = Some p' \<and> p' = p\<lparr>status := status p'\<rparr>"
    if r: "r \<in> set (elements h (projects st))" for r
  proof -
    from s(3) [OF r] obtain a b where
      ab: "objects h r = Some a" "objects h1 r = Some b" "b = a\<lparr>status := status b\<rparr>"
      by blast
    from r s(2) have "r \<in> set (elements h1 (projects st))" by simp
    with IH ab(2) obtain c where
      c: "objects h' r = Some c" "c = b\<lparr>status := status c\<rparr>"
      by (auto simp: h')
    from ab(3) c(2) have "c = a\<lparr>status := status c\<rparr>"
      by (metis Project.surjective Project.update_convs(5))
    with ab(1) c(1) show ?thesis by simp
  qed
  with pre len show ?case by blast
qed

lemma erase_status_prefix:
  assumes "well_formed st h" and "well_formed st h'"
    and "prefix (elements h (projects st)) (elements h' (projects st))"
    and "\<forall>r \<in> set (elements h (projects st)).
           \<exists>p p'. objects h r = Some p \<and> objects h' r = Some p' \<and> p' = p\<lparr>status := status p'\<rparr>"
  shows "prefix (map (\<lambda>p. p\<lparr>status := Active\<rparr>) (contents h (projects st)))
                (map (\<lambda>p. p\<lparr>status := Active\<rparr>) (contents h' (projects st)))"
proof -
  from assms(3) obtain zs where
    zs: "elements h' (projects st) = elements h (projects st) @ zs"
    by (auto simp: prefix_def)
  have "(the (objects h' r))\<lparr>status := Active\<rparr> = (the (objects h r))\<lparr>status := Active\<rparr>"
    if "r \<in> set (elements h (projects st))" for r
  proof -
    from assms(4) that obtain p p' where
      "objects h r = Some p" "objects h' r = Some p'" "p' = p\<lparr>status := status p'\<rparr>"
      by blast
    then show ?thesis
      by (metis Project.update_convs(5) Project.surjective option.sel)
  qed
  then have e3: "map (\<lambda>r. (the (objects h' r))\<lparr>status := Active\<rparr>) (elements h (projects st)) =
             map (\<lambda>r. (the (objects h r))\<lparr>status := Active\<rparr>) (elements h (projects st))"
    by simp
  have e1: "map (\<lambda>p. p\<lparr>status := Active\<rparr>) (contents h (projects st)) =
            map (\<lambda>r. (the (objects h r))\<lparr>status := Active\<rparr>) (elements h (projects st))"
    by (simp add: wf_contents [OF assms(1)] o_def)
  have e2: "map (\<lambda>p. p\<lparr>status := Active\<rparr>) (contents h' (projects st)) =
            map (\<lambda>r. (the (objects h' r))\<lparr>status := Active\<rparr>) (elements h (projects st)) @
            map (\<lambda>r. (the (objects h' r))\<lparr>status := Active\<rparr>) zs"
    by (simp add: wf_contents [OF assms(2)] zs o_def)
  show ?thesis
    unfolding e1 e2 e3 by simp
qed

subsection \<open>Printing and validation\<close>

lemma digit_char: "k < 10 \<Longrightarrow> DecimalDigit (0x30 + of_nat k)"
proof -
  assume "k < 10"
  then have "k = 0 \<or> k = 1 \<or> k = 2 \<or> k = 3 \<or> k = 4 \<or> k = 5 \<or> k = 6 \<or> k = 7 \<or> k = 8 \<or> k = 9"
    by arith
  then show ?thesis
    by (auto simp: DecimalDigit_def)
qed

lemma decimal_digits_digits: "list_all DecimalDigit (decimal_digits n)"
proof (induction n rule: decimal_digits.induct)
  case (1 n)
  show ?case
  proof (cases "n < 10")
    case True
    then show ?thesis by (subst decimal_digits.simps) (simp add: digit_char)
  next
    case False
    have "DecimalDigit (0x30 + of_nat (n mod 10))"
      by (rule digit_char) simp
    with 1 False show ?thesis
      by (subst decimal_digits.simps) simp
  qed
qed

lemma decimal_digits_not_Nil: "decimal_digits n \<noteq> []"
  by (subst decimal_digits.simps) simp

lemma DecimalDigit_not_space: "DecimalDigit c \<Longrightarrow> \<not> StrWhiteSpaceChar c"
  by (auto simp: DecimalDigit_def StrWhiteSpaceChar_def)

lemma trim_not_blank: "s \<noteq> [] \<Longrightarrow> \<not> StrWhiteSpaceChar (hd s) \<Longrightarrow> trim s \<noteq> []"
proof -
  assume s: "s \<noteq> []" and h: "\<not> StrWhiteSpaceChar (hd s)"
  then have d: "dropWhile StrWhiteSpaceChar s = s"
    by (cases s) simp_all
  from s h have "hd s \<in> set (rev s)" "\<not> StrWhiteSpaceChar (hd s)" by simp_all
  then have "dropWhile StrWhiteSpaceChar (rev s) \<noteq> []"
    by (auto simp: dropWhile_eq_Nil_conv)
  then show ?thesis by (simp add: trim_def d)
qed

lemma hd_decimal_digits: "\<not> StrWhiteSpaceChar (hd (decimal_digits n))"
proof -
  have "hd (decimal_digits n) \<in> set (decimal_digits n)"
    by (rule hd_in_set [OF decimal_digits_not_Nil])
  with decimal_digits_digits [of n] have "DecimalDigit (hd (decimal_digits n))"
    by (simp add: list_all_iff)
  then show ?thesis by (rule DecimalDigit_not_space)
qed

lemma unsigned_toString_hd:
  "unsigned_toString s e \<noteq> [] \<and> \<not> StrWhiteSpaceChar (hd (unsigned_toString s e))"
proof -
  define ds where "ds = decimal_digits s"
  define n where "n = e + int (length ds)"
  define x where "x = ascii ''e'' @ (if n - 1 < 0 then ascii ''-'' else ascii ''+'') @
                 decimal_digits (nat \<bar>n - 1\<bar>)"
  have z: "\<not> StrWhiteSpaceChar 0x30"
    by (simp add: StrWhiteSpaceChar_def)
  have ne: "ds \<noteq> []" and h: "\<not> StrWhiteSpaceChar (hd ds)"
    by (simp_all add: ds_def decimal_digits_not_Nil hd_decimal_digits)
  have A: "ds @ y \<noteq> [] \<and> \<not> StrWhiteSpaceChar (hd (ds @ y))" for y
    using ne h by simp
  have B: "take k ds @ y \<noteq> [] \<and> \<not> StrWhiteSpaceChar (hd (take k ds @ y))" if "0 < k" for k y
    using ne h that by (cases ds; cases k) simp_all
  have C: "ascii ''0.'' @ y \<noteq> [] \<and> \<not> StrWhiteSpaceChar (hd (ascii ''0.'' @ y))" for y
    using z by (simp add: ascii_def)
  have u: "unsigned_toString s e =
     (if - 5 \<le> n \<and> n \<le> 21 then
        (if int (length ds) \<le> n then ds @ replicate (nat (n - int (length ds))) 0x30
         else if 0 < n then take (nat n) ds @ (ascii ''.'' @ drop (nat n) ds)
         else ascii ''0.'' @ (replicate (nat (- n)) 0x30 @ ds))
      else
        (if int (length ds) = 1 then ds @ x
         else take 1 ds @ (ascii ''.'' @ drop 1 ds @ x)))"
    by (simp only: unsigned_toString_def Let_def ds_def n_def x_def append_assoc)
  have B1: "take 1 ds @ y \<noteq> [] \<and> \<not> StrWhiteSpaceChar (hd (take 1 ds @ y))" for y
    by (rule B) simp
  have Bn: "take (nat n) ds @ y \<noteq> [] \<and> \<not> StrWhiteSpaceChar (hd (take (nat n) ds @ y))"
    if "0 < n" for y
    by (rule B) (simp add: that)
  show ?thesis
  proof (cases "- 5 \<le> n \<and> n \<le> 21")
    case True
    show ?thesis
    proof (cases "int (length ds) \<le> n")
      case l: True
      have eq: "unsigned_toString s e = ds @ replicate (nat (n - int (length ds))) 0x30"
        by (simp only: u if_P [OF True] if_P [OF l])
      show ?thesis unfolding eq by (rule A)
    next
      case l: False
      show ?thesis
      proof (cases "0 < n")
        case p: True
        have eq: "unsigned_toString s e = take (nat n) ds @ (ascii ''.'' @ drop (nat n) ds)"
          by (simp only: u if_P [OF True] if_not_P [OF l] if_P [OF p])
        show ?thesis unfolding eq by (rule Bn [OF p])
      next
        case p: False
        have eq: "unsigned_toString s e = ascii ''0.'' @ (replicate (nat (- n)) 0x30 @ ds)"
          by (simp only: u if_P [OF True] if_not_P [OF l] if_not_P [OF p])
        show ?thesis unfolding eq by (rule C)
      qed
    qed
  next
    case False
    show ?thesis
    proof (cases "int (length ds) = 1")
      case l: True
      have eq: "unsigned_toString s e = ds @ x"
        by (simp only: u if_not_P [OF False] if_P [OF l])
      show ?thesis unfolding eq by (rule A)
    next
      case l: False
      have eq: "unsigned_toString s e = take 1 ds @ (ascii ''.'' @ drop 1 ds @ x)"
        by (simp only: u if_not_P [OF False] if_not_P [OF l])
      show ?thesis unfolding eq by (rule B1)
    qed
  qed
qed

lemma number_toString_not_blank: "trim (number_toString x) \<noteq> []"
proof (rule trim_not_blank)
  show "number_toString x \<noteq> []"
    using unsigned_toString_hd by (cases x) (simp_all add: ascii_def)
  show "\<not> StrWhiteSpaceChar (hd (number_toString x))"
    using unsigned_toString_hd by (cases x) (simp_all add: ascii_def StrWhiteSpaceChar_def)
qed

lemma ge_length: "ge_number (number_of_nat n) (Finite False m 0) \<longleftrightarrow> m \<le> n"
  by (simp add: ge_number_def number_of_nat_def mathematical_value_def split: bool.splits)

lemma valid_title:
  "validator \<lparr>value' = Str t, required = Some True, minLength = None, maxLength = None,
              min' = None, max' = None\<rparr> \<longleftrightarrow> trim t \<noteq> []"
  by (simp add: validator_def toString_def)

lemma valid_description:
  "validator \<lparr>value' = Str d, required = Some True, minLength = Some (Finite False 5 0),
              maxLength = None, min' = None, max' = None\<rparr> \<longleftrightarrow>
     trim d \<noteq> [] \<and> 5 \<le> length d"
  by (simp add: validator_def toString_def ge_length)

lemma valid_people:
  "validator \<lparr>value' = Num x, required = Some True, minLength = None, maxLength = None,
              min' = Some (Finite False 0 0), max' = Some (Finite False 5 0)\<rparr> \<longleftrightarrow>
     ge_number x (Finite False 0 0) \<and> le_number x (Finite False 5 0)"
  by (simp add: validator_def toString_def number_toString_not_blank)

lemma gatherUserInput_eq:
  "gatherUserInput rnd inp =
     (if trim (titleElement inp) \<noteq> [] \<and>
         (trim (descriptionElement inp) \<noteq> [] \<and> 5 \<le> length (descriptionElement inp)) \<and>
         (ge_number (StringToNumber rnd (peopleElement inp)) (Finite False 0 0) \<and>
          le_number (StringToNumber rnd (peopleElement inp)) (Finite False 5 0))
      then Inr (titleElement inp, descriptionElement inp, StringToNumber rnd (peopleElement inp))
      else Inl (ascii ''Invalid input!''))"
  unfolding gatherUserInput_def Let_def valid_title valid_description valid_people
  by simp

subsection \<open>The form and the page\<close>

lemma handleSubmit_valid:
  assumes "trim (titleElement (projInput w)) \<noteq> []"
    and "trim (descriptionElement (projInput w)) \<noteq> []"
    and "5 \<le> length (descriptionElement (projInput w))"
    and "ge_number (StringToNumber rnd (peopleElement (projInput w))) (Finite False 0 0)"
    and "le_number (StringToNumber rnd (peopleElement (projInput w))) (Finite False 5 0)"
  shows "handleSubmit rnd random w =
     (fst (addProjects random (titleElement (projInput w)) (descriptionElement (projInput w))
             (StringToNumber rnd (peopleElement (projInput w))) (projectState w) (memory w)),
      w\<lparr>memory :=
           snd (addProjects random (titleElement (projInput w))
                  (descriptionElement (projInput w))
                  (StringToNumber rnd (peopleElement (projInput w))) (projectState w) (memory w)),
         projInput := \<lparr>titleElement = [], descriptionElement = [], peopleElement = []\<rparr>\<rparr>)"
  using assms
  by (simp add: handleSubmit_def gatherUserInput_eq clearInputs_def split: prod.splits)

lemma handleSubmit_invalid:
  assumes "\<not> (trim (titleElement (projInput w)) \<noteq> [] \<and>
       (trim (descriptionElement (projInput w)) \<noteq> [] \<and>
        5 \<le> length (descriptionElement (projInput w))) \<and>
       (ge_number (StringToNumber rnd (peopleElement (projInput w))) (Finite False 0 0) \<and>
        le_number (StringToNumber rnd (peopleElement (projInput w))) (Finite False 5 0)))"
  shows "handleSubmit rnd random w = ([], w\<lparr>alerts := alerts w @ [ascii ''Invalid input!'']\<rparr>)"
  unfolding handleSubmit_def gatherUserInput_eq if_not_P [OF assms]
  by simp

lemma handleSubmit_cases:
  assumes "well_formed (projectState w) (memory w)"
  shows "if trim (titleElement (projInput w)) \<noteq> [] \<and>
            (trim (descriptionElement (projInput w)) \<noteq> [] \<and>
             5 \<le> length (descriptionElement (projInput w))) \<and>
            (ge_number (StringToNumber rnd (peopleElement (projInput w))) (Finite False 0 0) \<and>
             le_number (StringToNumber rnd (peopleElement (projInput w))) (Finite False 5 0))
         then handleSubmit rnd random w =
                (fst (addProjects random (titleElement (projInput w))
                        (descriptionElement (projInput w))
                        (StringToNumber rnd (peopleElement (projInput w)))
                        (projectState w) (memory w)),
                 w\<lparr>memory :=
                      snd (addProjects random (titleElement (projInput w))
                             (descriptionElement (projInput w))
                             (StringToNumber rnd (peopleElement (projInput w)))
                             (projectState w) (memory w)),
                    projInput :=
                      \<lparr>titleElement = [], descriptionElement = [], peopleElement = []\<rparr>\<rparr>) \<and>
              store_projects (snd (handleSubmit rnd random w)) =
                store_projects w @
                [\<lparr>ident = number_toString random, title = titleElement (projInput w),
                  description = descriptionElement (projInput w),
                  people = StringToNumber rnd (peopleElement (projInput w)),
                  status = Active\<rparr>] \<and>
              length (fst (handleSubmit rnd random w)) = 1 \<and>
              alerts (snd (handleSubmit rnd random w)) = alerts w
         else handleSubmit rnd random w =
                ([], w\<lparr>alerts := alerts w @ [ascii ''Invalid input!'']\<rparr>) \<and>
              store_projects (snd (handleSubmit rnd random w)) = store_projects w \<and>
              projInput (snd (handleSubmit rnd random w)) = projInput w"
proof (cases "trim (titleElement (projInput w)) \<noteq> [] \<and>
            (trim (descriptionElement (projInput w)) \<noteq> [] \<and>
             5 \<le> length (descriptionElement (projInput w))) \<and>
            (ge_number (StringToNumber rnd (peopleElement (projInput w))) (Finite False 0 0) \<and>
             le_number (StringToNumber rnd (peopleElement (projInput w))) (Finite False 5 0))")
  case True
  obtain ns h' where a: "addProjects random (titleElement (projInput w))
      (descriptionElement (projInput w)) (StringToNumber rnd (peopleElement (projInput w)))
      (projectState w) (memory w) = (ns, h')"
    by (cases "addProjects random (titleElement (projInput w))
      (descriptionElement (projInput w)) (StringToNumber rnd (peopleElement (projInput w)))
      (projectState w) (memory w)")
  from True have hs: "handleSubmit rnd random w =
      (ns, w\<lparr>memory := h',
             projInput := \<lparr>titleElement = [], descriptionElement = [], peopleElement = []\<rparr>\<rparr>)"
    by (simp add: handleSubmit_valid a)
  from addProjects_effect(4) [OF assms a] have "length ns = 1" by auto
  with addProjects_contents [OF assms a] True show ?thesis
    by (simp add: hs a store_projects_def)
next
  case False
  from handleSubmit_invalid [OF False] False show ?thesis
    by (simp add: store_projects_def)
qed

lemma moveProject_people:
  assumes "well_formed st h" and "moveProject projectId newStatus st h = (ns, h')"
  shows "map people (contents h' (projects st)) = map people (contents h (projects st))"
proof -
  from assms(2) have p: "perform (MoveProject projectId newStatus) st h = (ns, h')" by simp
  note s = perform_step [OF assms(1) p]
  from s(2) have el: "elements h' (projects st) = elements h (projects st)" by simp
  have "people (the (objects h' r)) = people (the (objects h r))"
    if "r \<in> set (elements h (projects st))" for r
  proof -
    from s(3) [OF that] obtain a b where
      "objects h r = Some a" "objects h' r = Some b" "b = a\<lparr>status := status b\<rparr>"
      by blast
    then show ?thesis
      by (metis Project.select_convs(4) Project.surjective Project.update_convs(5) option.sel)
  qed
  then show ?thesis
    by (simp add: wf_contents [OF assms(1)] wf_contents [OF s(1)] el)
qed

lemma start_well_formed: "well_formed (projectState program_start) (memory program_start)"
  by code_simp

lemma start_no_projects: "store_projects program_start = []"
  by code_simp

lemma handle_invariant:
  assumes "well_formed (projectState w) (memory w)"
    and "\<forall>p \<in> set (store_projects w).
           ge_number (people p) (Finite False 0 0) \<and> le_number (people p) (Finite False 5 0)"
  shows "well_formed (projectState (snd (handle rnd ev w))) (memory (snd (handle rnd ev w))) \<and>
         (\<forall>p \<in> set (store_projects (snd (handle rnd ev w))).
            ge_number (people p) (Finite False 0 0) \<and> le_number (people p) (Finite False 5 0))"
proof (cases ev)
  case (Input inp)
  with assms show ?thesis by (simp add: store_projects_def)
next
  case (Submit random)
  show ?thesis
  proof (cases "trim (titleElement (projInput w)) \<noteq> [] \<and>
            (trim (descriptionElement (projInput w)) \<noteq> [] \<and>
             5 \<le> length (descriptionElement (projInput w))) \<and>
            (ge_number (StringToNumber rnd (peopleElement (projInput w))) (Finite False 0 0) \<and>
             le_number (StringToNumber rnd (peopleElement (projInput w))) (Finite False 5 0))")
    case True
    obtain ns h' where a: "addProjects random (titleElement (projInput w))
        (descriptionElement (projInput w)) (StringToNumber rnd (peopleElement (projInput w)))
        (projectState w) (memory w) = (ns, h')"
      by (cases "addProjects random (titleElement (projInput w))
        (descriptionElement (projInput w)) (StringToNumber rnd (peopleElement (projInput w)))
        (projectState w) (memory w)")
    from True have hs: "handleSubmit rnd random w =
        (ns, w\<lparr>memory := h',
               projInput := \<lparr>titleElement = [], descriptionElement = [], peopleElement = []\<rparr>\<rparr>)"
      by (simp add: handleSubmit_valid a)
    from addProjects_wf [OF assms(1) a] addProjects_contents [OF assms(1) a] assms(2) True
    show ?thesis
      by (simp add: Submit hs store_projects_def)
  next
    case False
    from handleSubmit_invalid [OF False] assms show ?thesis
      by (simp add: Submit store_projects_def)
  qed
next
  case (Drop type projectId)
  obtain ns h' where m: "moveProject projectId (if type = active then Active else Finished)
      (projectState w) (memory w) = (ns, h')"
    by (cases "moveProject projectId (if type = active then Active else Finished)
      (projectState w) (memory w)")
  have d: "snd (handle rnd ev w) = w\<lparr>memory := h'\<rparr>"
    by (simp add: Drop dropHandler_def m)
  have "set (map people (contents h' (projects (projectState w)))) =
        set (map people (store_projects w))"
    by (simp only: moveProject_people [OF assms(1) m] store_projects_def)
  with assms(2) have "\<forall>p \<in> set (contents h' (projects (projectState w))).
      ge_number (people p) (Finite False 0 0) \<and> le_number (people p) (Finite False 5 0)"
    by (metis (no_types, lifting) image_iff list.set_map)
  with moveProject_wf [OF assms(1) m] show ?thesis
    by (simp add: d store_projects_def)
qed

lemma run_invariant:
  "well_formed (projectState w) (memory w) \<Longrightarrow>
   \<forall>p \<in> set (store_projects w).
      ge_number (people p) (Finite False 0 0) \<and> le_number (people p) (Finite False 5 0) \<Longrightarrow>
   well_formed (projectState (run rnd evs w)) (memory (run rnd evs w)) \<and>
   (\<forall>p \<in> set (store_projects (run rnd evs w)).
      ge_number (people p) (Finite False 0 0) \<and> le_number (people p) (Finite False 5 0))"
proof (induction evs arbitrary: w)
  case Nil
  then show ?case by simp
next
  case (Cons ev evs)
  from handle_invariant [OF Cons.prems, of rnd ev]
  have "well_formed (projectState (snd (handle rnd ev w))) (memory (snd (handle rnd ev w)))"
    and "\<forall>p \<in> set (store_projects (snd (handle rnd ev w))).
            ge_number (people p) (Finite False 0 0) \<and> le_number (people p) (Finite False 5 0)"
    by blast+
  from Cons.IH [OF this] show ?case by simp
qed

section \<open>The properties of the specification\<close>

text \<open>
  \<^bold>\<open>C1.\<close> \<open>addProjects\<close>, for any title, description and number of people (it
  validates nothing), leaves the projects of the store as they were and puts one project
  after them: the count grows by exactly one, and the new project is \<open>Active\<close> and
  carries the three values. Its identifier is the printed form of the number
  \<open>Math.random()\<close> returned; the identifiers of the store stay pairwise distinct exactly
  when they were so before and that string is not among them.
\<close>

theorem addProjects_appends_active:
  assumes "well_formed st h"
  shows "contents (snd (addProjects random t d p st h)) (projects st) =
           contents h (projects st) @
           [\<lparr>ident = number_toString random, title = t, description = d, people = p,
             status = Active\<rparr>] \<and>
         length (contents (snd (addProjects random t d p st h)) (projects st)) =
           length (contents h (projects st)) + 1 \<and>
         (distinct (map ident (contents (snd (addProjects random t d p st h)) (projects st))) \<longleftrightarrow>
            distinct (map ident (contents h (projects st))) \<and>
            number_toString random \<notin> set (map ident (contents h (projects st))))"
proof -
  obtain ns h' where r: "addProjects random t d p st h = (ns, h')"
    by (cases "addProjects random t d p st h")
  from addProjects_contents [OF assms r] show ?thesis
    by (auto simp: r)
qed

theorem addProjects_appends_active_witness:
  "well_formed (projectState one_project) (memory one_project) \<and>
   store_projects one_project =
     [\<lparr>ident = ascii ''0.5'', title = ascii ''Build API'',
       description = ascii ''Design and build the REST API'', people = Finite False 3 0,
       status = Active\<rparr>] \<and>
   contents (snd (addProjects (Finite False 25 (- 2)) (ascii ''Write docs'')
                    (ascii ''Document the API'') (Finite False 1 0)
                    (projectState one_project) (memory one_project)))
            (projects (projectState one_project)) =
     [\<lparr>ident = ascii ''0.5'', title = ascii ''Build API'',
       description = ascii ''Design and build the REST API'', people = Finite False 3 0,
       status = Active\<rparr>,
      \<lparr>ident = ascii ''0.25'', title = ascii ''Write docs'',
       description = ascii ''Document the API'', people = Finite False 1 0,
       status = Active\<rparr>]"
proof -
  have w: "well_formed (projectState one_project) (memory one_project)"
    by code_simp
  have e: "contents (memory one_project) (projects (projectState one_project)) =
     [\<lparr>ident = ascii ''0.5'', title = ascii ''Build API'',
       description = ascii ''Design and build the REST API'', people = Finite False 3 0,
       status = Active\<rparr>]"
    by code_simp
  have i: "number_toString (Finite False 25 (- 2)) = ascii ''0.25''"
    by code_simp
  from addProjects_appends_active [OF w, of "Finite False 25 (- 2)" "ascii ''Write docs''"
      "ascii ''Document the API''" "Finite False 1 0"] w
  show ?thesis by (simp add: e i store_projects_def del: number_toString.simps)
qed

text \<open>
  The identifier is the printed form of what \<open>Math.random()\<close> returns and nothing
  compares it with the identifiers in use: when the call returns 0.5 a second time, the
  store holds two projects with the identifier \<open>0.5\<close>.
\<close>

theorem addProjects_id_counterexample:
  "map ident (contents (snd (addProjects (Finite False 5 (- 1)) (ascii ''Write docs'')
                    (ascii ''Document the API'') (Finite False 1 0)
                    (projectState one_project) (memory one_project)))
            (projects (projectState one_project))) =
     [ascii ''0.5'', ascii ''0.5'']"
  by code_simp

text \<open>
  \<^bold>\<open>C2.\<close> \<open>moveProject\<close> looks for the first project of the store with the
  identifier given. When there is none, or when that project already has the status
  asked for, it makes no notification and leaves the heap as it is. Otherwise it makes
  one notification that calls every listener, each with the projects as they are after
  the call, and the store then holds the same projects but for the first match, which has
  the new status.
\<close>

theorem moveProject_first_match:
  assumes "well_formed st h"
  shows "case find (\<lambda>q. ident q = projectId) (contents h (projects st)) of
           None \<Rightarrow> moveProject projectId newStatus st h = ([], h)
         | Some p \<Rightarrow>
             if status p = newStatus then moveProject projectId newStatus st h = ([], h)
             else (\<exists>n h'. moveProject projectId newStatus st h = ([n], h') \<and>
                     map fst n = listeners st \<and>
                     (\<forall>c \<in> snd ` set n. contents h' c = contents h' (projects st)) \<and>
                     contents h' (projects st) =
                       (contents h (projects st))
                         [length (takeWhile (\<lambda>q. ident q \<noteq> projectId) (contents h (projects st))) :=
                            p\<lparr>status := newStatus\<rparr>])"
proof (cases "find (has_id h projectId) (elements h (projects st))")
  case None
  then show ?thesis
    by (simp add: wf_find_contents [OF assms] moveProject_absent)
next
  case (Some r)
  then have "r \<in> set (elements h (projects st))" by (auto simp: find_Some_iff)
  from wf_allocated [OF assms this] obtain p where p: "objects h r = Some p" by auto
  have f: "find (\<lambda>q. ident q = projectId) (contents h (projects st)) = Some p"
    by (simp add: wf_find_contents [OF assms] Some p)
  show ?thesis
  proof (cases "status p = newStatus")
    case True
    then show ?thesis by (simp add: f moveProject_same_status [OF Some p])
  next
    case False
    obtain ns h' where m: "moveProject projectId newStatus st h = (ns, h')"
      by (cases "moveProject projectId newStatus st h")
    note e = moveProject_effect [OF assms Some p False m]
    from e(4) obtain n where n: "ns = [n]" "map fst n = listeners st"
      "\<forall>c \<in> snd ` set n. arrays h' c = Some (elements h (projects st))" by blast
    have el: "elements h' (projects st) = elements h (projects st)"
      using e(2) by (simp add: elements_def)
    have "\<forall>c \<in> snd ` set n. contents h' c = contents h' (projects st)"
    proof
      fix c assume "c \<in> snd ` set n"
      with n(3) have "arrays h' c = Some (elements h (projects st))" by blast
      then have "elements h' c = elements h (projects st)"
        by (simp add: elements_def)
      then have "elements h' c = elements h' (projects st)"
        by (simp add: el)
      then show "contents h' c = contents h' (projects st)"
        by (rule same_elements_contents)
    qed
    with n(1,2) moveProject_contents [OF assms Some p False m] show ?thesis
      by (simp add: f False m)
  qed
qed

theorem moveProject_first_match_witness:
  "well_formed (projectState one_project) (memory one_project) \<and>
   contents (snd (moveProject (ascii ''0.5'') Finished (projectState one_project)
                    (memory one_project)))
            (projects (projectState one_project)) =
     [\<lparr>ident = ascii ''0.5'', title = ascii ''Build API'',
       description = ascii ''Design and build the REST API'', people = Finite False 3 0,
       status = Finished\<rparr>] \<and>
   map (map fst) (fst (moveProject (ascii ''0.5'') Finished (projectState one_project)
                         (memory one_project))) = [[active, finished]] \<and>
   moveProject (ascii ''0.7'') Finished (projectState one_project) (memory one_project) =
     ([], memory one_project)"
proof -
  have w: "well_formed (projectState one_project) (memory one_project)"
    by code_simp
  have e: "contents (memory one_project) (projects (projectState one_project)) =
     [\<lparr>ident = ascii ''0.5'', title = ascii ''Build API'',
       description = ascii ''Design and build the REST API'', people = Finite False 3 0,
       status = Active\<rparr>]"
    by code_simp
  have l: "listeners (projectState one_project) = [active, finished]"
    by code_simp
  have n: "ascii ''0.5'' \<noteq> ascii ''0.7''"
    by code_simp
  from moveProject_first_match [OF w, of "ascii ''0.5''" Finished]
  have a: "contents (snd (moveProject (ascii ''0.5'') Finished (projectState one_project)
                    (memory one_project)))
            (projects (projectState one_project)) =
     [\<lparr>ident = ascii ''0.5'', title = ascii ''Build API'',
       description = ascii ''Design and build the REST API'', people = Finite False 3 0,
       status = Finished\<rparr>] \<and>
   map (map fst) (fst (moveProject (ascii ''0.5'') Finished (projectState one_project)
                         (memory one_project))) = [[active, finished]]"
    by (auto simp: e l)
  from moveProject_first_match [OF w, of "ascii ''0.7''" Finished] n
  have b: "moveProject (ascii ''0.7'') Finished (projectState one_project) (memory one_project) =
     ([], memory one_project)"
    by (simp add: e)
  from w a b show ?thesis by simp
qed

text \<open>
  \<^bold>\<open>C3.\<close> Calling \<open>moveProject\<close> twice in succession with the same arguments: the
  second call makes no notification and leaves the heap as the first call left it. The
  first call makes one notification when a project with the identifier exists and the
  first such project has another status, and none otherwise.
\<close>

theorem moveProject_twice:
  assumes "well_formed st h"
    and "moveProject projectId newStatus st h = (ns1, h1)"
    and "moveProject projectId newStatus st h1 = (ns2, h2)"
  shows "ns2 = [] \<and> h2 = h1 \<and>
         length ns1 =
           (if \<exists>p. find (\<lambda>q. ident q = projectId) (contents h (projects st)) = Some p \<and>
                    status p \<noteq> newStatus
            then 1 else 0)"
proof (cases "find (has_id h projectId) (elements h (projects st))")
  case None
  from moveProject_absent [OF None, of newStatus] assms(2,3)
  have "ns1 = []" "h1 = h" "ns2 = []" "h2 = h1" by auto
  then show ?thesis
    by (simp add: wf_find_contents [OF assms(1)] None)
next
  case (Some r)
  then have "r \<in> set (elements h (projects st))" by (auto simp: find_Some_iff)
  from wf_allocated [OF assms(1) this] obtain p where p: "objects h r = Some p" by auto
  have f: "find (\<lambda>q. ident q = projectId) (contents h (projects st)) = Some p"
    by (simp add: wf_find_contents [OF assms(1)] Some p)
  show ?thesis
  proof (cases "status p = newStatus")
    case True
    from moveProject_same_status [OF Some p True] assms(2,3)
    have "ns1 = []" "h1 = h" "ns2 = []" "h2 = h1" by auto
    then show ?thesis by (simp add: f True)
  next
    case False
    from moveProject_again [OF assms(1) Some p False assms(2)] assms(3)
    have "ns2 = []" "h2 = h1" by auto
    moreover from moveProject_effect(4) [OF assms(1) Some p False assms(2)]
    have "length ns1 = 1" by auto
    ultimately show ?thesis by (simp add: f False)
  qed
qed

theorem moveProject_twice_witness:
  "well_formed (projectState one_project) (memory one_project) \<and>
   length (fst (moveProject (ascii ''0.5'') Finished (projectState one_project)
                  (memory one_project))) = 1 \<and>
   moveProject (ascii ''0.5'') Finished (projectState one_project)
     (snd (moveProject (ascii ''0.5'') Finished (projectState one_project)
             (memory one_project))) =
     ([], snd (moveProject (ascii ''0.5'') Finished (projectState one_project)
                 (memory one_project)))"
proof -
  have w: "well_formed (projectState one_project) (memory one_project)"
    by code_simp
  have f: "find (\<lambda>q. ident q = ascii ''0.5'')
             (contents (memory one_project) (projects (projectState one_project))) =
           Some \<lparr>ident = ascii ''0.5'', title = ascii ''Build API'',
                  description = ascii ''Design and build the REST API'',
                  people = Finite False 3 0, status = Active\<rparr>"
    by code_simp
  obtain ns1 h1 where m1: "moveProject (ascii ''0.5'') Finished (projectState one_project)
      (memory one_project) = (ns1, h1)"
    by (cases "moveProject (ascii ''0.5'') Finished (projectState one_project)
      (memory one_project)")
  obtain ns2 h2 where m2: "moveProject (ascii ''0.5'') Finished (projectState one_project) h1 =
      (ns2, h2)"
    by (cases "moveProject (ascii ''0.5'') Finished (projectState one_project) h1")
  from moveProject_twice [OF w m1 m2] w show ?thesis
    by (simp add: m1 m2 f)
qed

text \<open>
  The first of the two calls makes no notification when the project already has the
  status asked for, or when no project has the identifier.
\<close>

theorem moveProject_twice_counterexample:
  "fst (moveProject (ascii ''0.5'') Active (projectState one_project) (memory one_project)) = [] \<and>
   fst (moveProject (ascii ''0.7'') Finished (projectState one_project) (memory one_project)) = []"
  by code_simp

text \<open>
  \<^bold>\<open>C4.\<close> A notification made by \<open>addProjects\<close> or \<open>moveProject\<close> is part of
  the result of the operation; it calls the listeners of the store, each once, in the
  order in which they were registered. Every listener receives an array of its own,
  created by this operation and other than the array of the store, that holds the same
  references, so the same projects in the same number, as the store does when the
  operation returns.
\<close>

theorem notification_delivers_copy:
  assumes "well_formed st h" and "perform op st h = (ns, h')" and "n \<in> set ns"
  shows "map fst n = listeners st \<and> distinct (map snd n) \<and>
         (\<forall>c \<in> snd ` set n.
            c \<noteq> projects st \<and> fresh h \<le> c \<and>
            elements h' c = elements h' (projects st) \<and>
            contents h' c = contents h' (projects st) \<and>
            length (contents h' c) = length (contents h' (projects st)))"
proof -
  note e = perform_notification [OF assms]
  have "c \<noteq> projects st \<and> fresh h \<le> c \<and>
        elements h' c = elements h' (projects st) \<and>
        contents h' c = contents h' (projects st) \<and>
        length (contents h' c) = length (contents h' (projects st))"
    if c: "c \<in> snd ` set n" for c
  proof -
    from e c have f: "fresh h \<le> c" and a: "arrays h' c = arrays h' (projects st)" by blast+
    from f wf_projects [OF assms(1)] have "c \<noteq> projects st" by simp
    moreover from a have el: "elements h' c = elements h' (projects st)"
      by (simp add: elements_def)
    moreover have "contents h' c = contents h' (projects st)"
      by (rule same_elements_contents [OF el])
    ultimately show ?thesis using f by simp
  qed
  with e show ?thesis by blast
qed

theorem notification_delivers_copy_witness:
  "well_formed (projectState one_project) (memory one_project) \<and>
   fst (perform (MoveProject (ascii ''0.5'') Finished) (projectState one_project)
          (memory one_project)) = [[(active, 4), (finished, 5)]] \<and>
   projects (projectState one_project) = 0 \<and>
   listeners (projectState one_project) = [active, finished] \<and>
   contents (snd (perform (MoveProject (ascii ''0.5'') Finished) (projectState one_project)
                    (memory one_project))) 4 =
     contents (snd (perform (MoveProject (ascii ''0.5'') Finished) (projectState one_project)
                      (memory one_project))) 0 \<and>
   contents (snd (perform (MoveProject (ascii ''0.5'') Finished) (projectState one_project)
                    (memory one_project))) 5 =
     contents (snd (perform (MoveProject (ascii ''0.5'') Finished) (projectState one_project)
                      (memory one_project))) 0"
proof -
  have w: "well_formed (projectState one_project) (memory one_project)"
    by code_simp
  have n: "fst (perform (MoveProject (ascii ''0.5'') Finished) (projectState one_project)
          (memory one_project)) = [[(active, 4), (finished, 5)]]"
    by code_simp
  have p: "projects (projectState one_project) = 0"
    and l: "listeners (projectState one_project) = [active, finished]"
    by code_simp+
  obtain ns h' where r: "perform (MoveProject (ascii ''0.5'') Finished)
      (projectState one_project) (memory one_project) = (ns, h')"
    by (cases "perform (MoveProject (ascii ''0.5'') Finished)
      (projectState one_project) (memory one_project)")
  from n r have ns: "ns = [[(active, 4), (finished, 5)]]" by simp
  from notification_delivers_copy [OF w r, of "[(active, 4), (finished, 5)]"]
  have "contents h' 4 = contents h' 0 \<and> contents h' 5 = contents h' 0"
    by (simp add: ns p)
  with w n p l r show ?thesis by simp
qed

text \<open>
  \<^bold>\<open>C5.\<close> For every sequence of projects, the filter of the \<open>active\<close> list and
  the filter of the \<open>finished\<close> list divide it in two: every project of the sequence is
  in exactly one of the two results, the two have no project in common and together hold
  all of them as often as the sequence does, and each result lists its projects in the
  order of the sequence.
\<close>

theorem lists_partition_projects:
  "mset (relevantProjects active ps) + mset (relevantProjects finished ps) = mset ps \<and>
   set (relevantProjects active ps) \<inter> set (relevantProjects finished ps) = {} \<and>
   set (relevantProjects active ps) \<union> set (relevantProjects finished ps) = set ps \<and>
   length (relevantProjects active ps) + length (relevantProjects finished ps) = length ps \<and>
   subseq (relevantProjects active ps) ps \<and> subseq (relevantProjects finished ps) ps \<and>
   relevantProjects active ps = filter (\<lambda>proj. status proj = Active) ps \<and>
   relevantProjects finished ps = filter (\<lambda>proj. status proj = Finished) ps \<and>
   (\<forall>proj \<in> set ps. (proj \<in> set (relevantProjects active ps)) \<noteq>
                       (proj \<in> set (relevantProjects finished ps)))"
proof -
  have n: "status proj \<noteq> Active \<longleftrightarrow> status proj = Finished" for proj
    by (cases "status proj") simp_all
  have a: "relevantProjects active ps = filter (\<lambda>proj. status proj = Active) ps"
    by (simp add: relevantProjects_def)
  have f: "relevantProjects finished ps = filter (\<lambda>proj. status proj = Finished) ps"
    by (simp add: relevantProjects_def)
  have m: "mset (filter (\<lambda>proj. status proj = Active) ps) +
           mset (filter (\<lambda>proj. status proj = Finished) ps) = mset ps"
    by (induction ps) (simp_all add: n [symmetric])
  have l: "length (filter (\<lambda>proj. status proj = Active) ps) +
           length (filter (\<lambda>proj. status proj = Finished) ps) = length ps"
    using sum_length_filter_compl [of "\<lambda>proj. status proj = Active" ps] by (simp add: n)
  have d: "set (filter (\<lambda>proj. status proj = Active) ps) \<inter>
           set (filter (\<lambda>proj. status proj = Finished) ps) = {}"
    by auto
  have u: "set (filter (\<lambda>proj. status proj = Active) ps) \<union>
           set (filter (\<lambda>proj. status proj = Finished) ps) = set ps"
    using n by auto
  have x: "\<forall>proj \<in> set ps. (proj \<in> set (filter (\<lambda>proj. status proj = Active) ps)) \<noteq>
                       (proj \<in> set (filter (\<lambda>proj. status proj = Finished) ps))"
    using n by auto
  show ?thesis
    unfolding a f
    using m l d u x by simp
qed

theorem lists_partition_projects_witness:
  "relevantProjects active
     [\<lparr>ident = ascii ''0.5'', title = ascii ''a'', description = ascii ''first'',
       people = Finite False 1 0, status = Active\<rparr>,
      \<lparr>ident = ascii ''0.25'', title = ascii ''b'', description = ascii ''second'',
       people = Finite False 2 0, status = Finished\<rparr>,
      \<lparr>ident = ascii ''0.75'', title = ascii ''c'', description = ascii ''third'',
       people = Finite False 3 0, status = Active\<rparr>] =
     [\<lparr>ident = ascii ''0.5'', title = ascii ''a'', description = ascii ''first'',
       people = Finite False 1 0, status = Active\<rparr>,
      \<lparr>ident = ascii ''0.75'', title = ascii ''c'', description = ascii ''third'',
       people = Finite False 3 0, status = Active\<rparr>] \<and>
   relevantProjects finished
     [\<lparr>ident = ascii ''0.5'', title = ascii ''a'', description = ascii ''first'',
       people = Finite False 1 0, status = Active\<rparr>,
      \<lparr>ident = ascii ''0.25'', title = ascii ''b'', description = ascii ''second'',
       people = Finite False 2 0, status = Finished\<rparr>,
      \<lparr>ident = ascii ''0.75'', title = ascii ''c'', description = ascii ''third'',
       people = Finite False 3 0, status = Active\<rparr>] =
     [\<lparr>ident = ascii ''0.25'', title = ascii ''b'', description = ascii ''second'',
       people = Finite False 2 0, status = Finished\<rparr>]"
  using lists_partition_projects
    [of "[\<lparr>ident = ascii ''0.5'', title = ascii ''a'', description = ascii ''first'',
       people = Finite False 1 0, status = Active\<rparr>,
      \<lparr>ident = ascii ''0.25'', title = ascii ''b'', description = ascii ''second'',
       people = Finite False 2 0, status = Finished\<rparr>,
      \<lparr>ident = ascii ''0.75'', title = ascii ''c'', description = ascii ''third'',
       people = Finite False 3 0, status = Active\<rparr>]"]
  by simp

text \<open>
  \<^bold>\<open>C6.\<close> \<open>validator\<close> returns true exactly when every constraint that is
  configured and applies to the type of the value holds: \<open>required\<close> asks for a string
  form that is not blank, \<open>minLength\<close> and \<open>maxLength\<close> bound the length of a string,
  \<open>min\<close> and \<open>max\<close> bound a number. The length bounds have no effect on a number and
  the numeric bounds none on a string. The function is total and returns a truth value
  only.
\<close>

theorem validator_iff:
  "(validator arg \<longleftrightarrow>
      (required arg = Some True \<longrightarrow> trim (toString (value' arg)) \<noteq> []) \<and>
      (\<forall>m s. minLength arg = Some m \<and> value' arg = Str s \<longrightarrow>
         ge_number (number_of_nat (length s)) m) \<and>
      (\<forall>m s. maxLength arg = Some m \<and> value' arg = Str s \<longrightarrow>
         le_number (number_of_nat (length s)) m) \<and>
      (\<forall>m x. min' arg = Some m \<and> value' arg = Num x \<longrightarrow> ge_number x m) \<and>
      (\<forall>m x. max' arg = Some m \<and> value' arg = Num x \<longrightarrow> le_number x m)) \<and>
   validator (arg\<lparr>value' := Num x\<rparr>) =
     validator (arg\<lparr>value' := Num x, minLength := None, maxLength := None\<rparr>) \<and>
   validator (arg\<lparr>value' := Str s\<rparr>) =
     validator (arg\<lparr>value' := Str s, min' := None, max' := None\<rparr>)"
  by (auto simp: validator_def split: option.splits string_or_number.splits)

theorem validator_iff_witness:
  "validator \<lparr>value' = Str (ascii ''hello''), required = Some True,
              minLength = Some (Finite False 5 0), maxLength = None, min' = None,
              max' = None\<rparr> \<and>
   \<not> validator \<lparr>value' = Str [], required = Some True, minLength = None, maxLength = None,
                min' = None, max' = None\<rparr> \<and>
   validator \<lparr>value' = Num (Finite False 3 0), required = None, minLength = None,
              maxLength = None, min' = Some (Finite False 0 0),
              max' = Some (Finite False 5 0)\<rparr> \<and>
   \<not> validator \<lparr>value' = Num (Finite False 7 0), required = None, minLength = None,
                maxLength = None, min' = Some (Finite False 0 0),
                max' = Some (Finite False 5 0)\<rparr>"
proof -
  have t: "trim (ascii ''hello'') \<noteq> []" "trim [] = []"
    by code_simp+
  have c: "ge_number (number_of_nat (length (ascii ''hello''))) (Finite False 5 0)"
    "ge_number (Finite False 3 0) (Finite False 0 0)"
    "le_number (Finite False 3 0) (Finite False 5 0)"
    "\<not> le_number (Finite False 7 0) (Finite False 5 0)"
    by code_simp+
  from validator_iff [of "\<lparr>value' = Str (ascii ''hello''), required = Some True,
              minLength = Some (Finite False 5 0), maxLength = None, min' = None,
              max' = None\<rparr>"]
  have 1: "validator \<lparr>value' = Str (ascii ''hello''), required = Some True,
              minLength = Some (Finite False 5 0), maxLength = None, min' = None,
              max' = None\<rparr>"
    using t c by (simp add: toString_def)
  from validator_iff [of "\<lparr>value' = Str [], required = Some True, minLength = None,
              maxLength = None, min' = None, max' = None\<rparr>"]
  have 2: "\<not> validator \<lparr>value' = Str [], required = Some True, minLength = None,
              maxLength = None, min' = None, max' = None\<rparr>"
    using t by (simp add: toString_def)
  from validator_iff [of "\<lparr>value' = Num (Finite False 3 0), required = None, minLength = None,
              maxLength = None, min' = Some (Finite False 0 0),
              max' = Some (Finite False 5 0)\<rparr>"]
  have 3: "validator \<lparr>value' = Num (Finite False 3 0), required = None, minLength = None,
              maxLength = None, min' = Some (Finite False 0 0),
              max' = Some (Finite False 5 0)\<rparr>"
    using c by simp
  from validator_iff [of "\<lparr>value' = Num (Finite False 7 0), required = None, minLength = None,
              maxLength = None, min' = Some (Finite False 0 0),
              max' = Some (Finite False 5 0)\<rparr>"]
  have 4: "\<not> validator \<lparr>value' = Num (Finite False 7 0), required = None, minLength = None,
              maxLength = None, min' = Some (Finite False 0 0),
              max' = Some (Finite False 5 0)\<rparr>"
    using c by simp
  from 1 2 3 4 show ?thesis by simp
qed

text \<open>
  \<^bold>\<open>C7.\<close> A submission does one of two things. When the title is not blank, the
  description is not blank and has at least five code units, and the people field
  converts to a number between 0 and 5, \<open>addProjects\<close> is called once with the three
  values, which makes one notification and puts the new project last in the store; the
  three fields are then empty and no alert is shown. Otherwise the alert
  \<open>Invalid input!\<close> is shown and nothing else changes: no project is added and the
  fields keep their values.
\<close>

theorem handleSubmit_adds_or_alerts:
  fixes w rnd random
  defines "t \<equiv> titleElement (projInput w)"
    and "d \<equiv> descriptionElement (projInput w)"
    and "x \<equiv> StringToNumber rnd (peopleElement (projInput w))"
  defines "valid \<equiv>
      validator \<lparr>value' = Str t, required = Some True, minLength = None, maxLength = None,
                 min' = None, max' = None\<rparr> \<and>
      validator \<lparr>value' = Str d, required = Some True, minLength = Some (Finite False 5 0),
                 maxLength = None, min' = None, max' = None\<rparr> \<and>
      validator \<lparr>value' = Num x, required = Some True, minLength = None, maxLength = None,
                 min' = Some (Finite False 0 0), max' = Some (Finite False 5 0)\<rparr>"
  assumes "well_formed (projectState w) (memory w)"
  shows "(valid \<longleftrightarrow>
            trim t \<noteq> [] \<and> (trim d \<noteq> [] \<and> 5 \<le> length d) \<and>
            (ge_number x (Finite False 0 0) \<and> le_number x (Finite False 5 0))) \<and>
         (if valid
          then handleSubmit rnd random w =
                 (fst (addProjects random t d x (projectState w) (memory w)),
                  w\<lparr>memory := snd (addProjects random t d x (projectState w) (memory w)),
                     projInput :=
                       \<lparr>titleElement = [], descriptionElement = [], peopleElement = []\<rparr>\<rparr>) \<and>
               store_projects (snd (handleSubmit rnd random w)) =
                 store_projects w @
                 [\<lparr>ident = number_toString random, title = t, description = d, people = x,
                   status = Active\<rparr>] \<and>
               length (fst (handleSubmit rnd random w)) = 1 \<and>
               alerts (snd (handleSubmit rnd random w)) = alerts w
          else handleSubmit rnd random w =
                 ([], w\<lparr>alerts := alerts w @ [ascii ''Invalid input!'']\<rparr>) \<and>
               store_projects (snd (handleSubmit rnd random w)) = store_projects w \<and>
               projInput (snd (handleSubmit rnd random w)) = projInput w)"
proof -
  have v: "valid \<longleftrightarrow>
      trim t \<noteq> [] \<and> (trim d \<noteq> [] \<and> 5 \<le> length d) \<and>
      (ge_number x (Finite False 0 0) \<and> le_number x (Finite False 5 0))"
    unfolding valid_def valid_title valid_description valid_people ..
  from handleSubmit_cases [OF assms(5), of rnd random] show ?thesis
    unfolding v t_def d_def x_def by simp
qed

theorem handleSubmit_adds_or_alerts_witness:
  "well_formed (projectState (program_start\<lparr>projInput := build_api\<rparr>))
     (memory (program_start\<lparr>projInput := build_api\<rparr>)) \<and>
   store_projects (snd (handleSubmit id (Finite False 5 (- 1))
                          (program_start\<lparr>projInput := build_api\<rparr>))) =
     [\<lparr>ident = ascii ''0.5'', title = ascii ''Build API'',
       description = ascii ''Design and build the REST API'', people = Finite False 3 0,
       status = Active\<rparr>] \<and>
   alerts (snd (handleSubmit id (Finite False 5 (- 1))
                  (program_start\<lparr>projInput := build_api\<rparr>))) = [] \<and>
   handleSubmit id (Finite False 5 (- 1)) (program_start\<lparr>projInput := seven_people\<rparr>) =
     ([], program_start\<lparr>projInput := seven_people, alerts := [ascii ''Invalid input!'']\<rparr>)"
proof -
  have w: "well_formed (projectState (program_start\<lparr>projInput := build_api\<rparr>))
     (memory (program_start\<lparr>projInput := build_api\<rparr>))"
    by code_simp
  have w7: "well_formed (projectState (program_start\<lparr>projInput := seven_people\<rparr>))
     (memory (program_start\<lparr>projInput := seven_people\<rparr>))"
    by code_simp
  have c: "trim (titleElement (projInput (program_start\<lparr>projInput := build_api\<rparr>))) \<noteq> [] \<and>
      (trim (descriptionElement (projInput (program_start\<lparr>projInput := build_api\<rparr>))) \<noteq> [] \<and>
       5 \<le> length (descriptionElement (projInput (program_start\<lparr>projInput := build_api\<rparr>)))) \<and>
      (ge_number (StringToNumber id
                    (peopleElement (projInput (program_start\<lparr>projInput := build_api\<rparr>))))
         (Finite False 0 0) \<and>
       le_number (StringToNumber id
                    (peopleElement (projInput (program_start\<lparr>projInput := build_api\<rparr>))))
         (Finite False 5 0))"
    by code_simp
  have c7: "\<not> (trim (titleElement (projInput (program_start\<lparr>projInput := seven_people\<rparr>))) \<noteq> [] \<and>
      (trim (descriptionElement (projInput (program_start\<lparr>projInput := seven_people\<rparr>))) \<noteq> [] \<and>
       5 \<le> length (descriptionElement (projInput (program_start\<lparr>projInput := seven_people\<rparr>)))) \<and>
      (ge_number (StringToNumber id
                    (peopleElement (projInput (program_start\<lparr>projInput := seven_people\<rparr>))))
         (Finite False 0 0) \<and>
       le_number (StringToNumber id
                    (peopleElement (projInput (program_start\<lparr>projInput := seven_people\<rparr>))))
         (Finite False 5 0)))"
    by code_simp
  have v: "StringToNumber id (peopleElement build_api) = Finite False 3 0"
    "number_toString (Finite False 5 (- 1)) = ascii ''0.5''"
    "titleElement build_api = ascii ''Build API''"
    "descriptionElement build_api = ascii ''Design and build the REST API''"
    "store_projects (program_start\<lparr>projInput := build_api\<rparr>) = []"
    "alerts program_start = []"
    by code_simp+
  note T = handleSubmit_adds_or_alerts
    [where w = "program_start\<lparr>projInput := build_api\<rparr>" and rnd = id
       and random = "Finite False 5 (- 1)", OF w]
  note valid = T [THEN conjunct1, THEN iffD2, OF c]
  note A = T [THEN conjunct2, unfolded if_P [OF valid]]
  from A [THEN conjunct2, THEN conjunct1]
  have a1: "store_projects (snd (handleSubmit id (Finite False 5 (- 1))
                          (program_start\<lparr>projInput := build_api\<rparr>))) =
     [\<lparr>ident = ascii ''0.5'', title = ascii ''Build API'',
       description = ascii ''Design and build the REST API'', people = Finite False 3 0,
       status = Active\<rparr>]"
    by (simp add: v del: number_toString.simps)
  from A [THEN conjunct2, THEN conjunct2, THEN conjunct2]
  have a2: "alerts (snd (handleSubmit id (Finite False 5 (- 1))
                  (program_start\<lparr>projInput := build_api\<rparr>))) = []"
    by (simp add: v)
  note F = handleSubmit_adds_or_alerts
    [where w = "program_start\<lparr>projInput := seven_people\<rparr>" and rnd = id
       and random = "Finite False 5 (- 1)", OF w7]
  have invalid: "\<not> (validator \<lparr>value' = Str (titleElement (projInput
                          (program_start\<lparr>projInput := seven_people\<rparr>))),
                     required = Some True, minLength = None, maxLength = None,
                     min' = None, max' = None\<rparr> \<and>
        validator \<lparr>value' = Str (descriptionElement (projInput
                          (program_start\<lparr>projInput := seven_people\<rparr>))),
                   required = Some True, minLength = Some (Finite False 5 0),
                   maxLength = None, min' = None, max' = None\<rparr> \<and>
        validator \<lparr>value' = Num (StringToNumber id (peopleElement (projInput
                          (program_start\<lparr>projInput := seven_people\<rparr>)))),
                   required = Some True, minLength = None, maxLength = None,
                   min' = Some (Finite False 0 0), max' = Some (Finite False 5 0)\<rparr>)"
    using F [THEN conjunct1] c7 by blast
  from F [THEN conjunct2, unfolded if_not_P [OF invalid], THEN conjunct1]
  have b: "handleSubmit id (Finite False 5 (- 1)) (program_start\<lparr>projInput := seven_people\<rparr>) =
     ([], program_start\<lparr>projInput := seven_people, alerts := [ascii ''Invalid input!'']\<rparr>)"
    by (simp add: v)
  from w a1 a2 b show ?thesis by simp
qed

text \<open>
  \<^bold>\<open>C8.\<close> Along every sequence of operations of the store, the array of the store
  only grows at its end, by one reference for each \<open>addProjects\<close> and by none for a
  \<open>moveProject\<close>; every project that was in the store is still there, at its place and
  the same but for its status. So the projects stay in the order of their creation.
\<close>

theorem projects_keep_creation_order:
  assumes "well_formed st h" and "perform_all ops st h = (ns, h')"
  shows "prefix (elements h (projects st)) (elements h' (projects st)) \<and>
         length (elements h' (projects st)) =
           length (elements h (projects st)) +
           length (filter (\<lambda>op. case op of AddProject random t d p \<Rightarrow> True
                                          | MoveProject projectId s \<Rightarrow> False) ops) \<and>
         (\<forall>r \<in> set (elements h (projects st)).
            \<exists>p p'. objects h r = Some p \<and> objects h' r = Some p' \<and>
                    p' = p\<lparr>status := status p'\<rparr>) \<and>
         prefix (map (\<lambda>p. p\<lparr>status := Active\<rparr>) (contents h (projects st)))
                (map (\<lambda>p. p\<lparr>status := Active\<rparr>) (contents h' (projects st)))"
proof -
  note o = perform_all_order [OF assms]
  have w': "well_formed st h'" by (rule perform_all_wf [OF assms])
  from o have "prefix (elements h (projects st)) (elements h' (projects st))"
    and "\<forall>r \<in> set (elements h (projects st)).
            \<exists>p p'. objects h r = Some p \<and> objects h' r = Some p' \<and>
                    p' = p\<lparr>status := status p'\<rparr>"
    by blast+
  from erase_status_prefix [OF assms(1) w' this] o show ?thesis by blast
qed

theorem projects_keep_creation_order_witness:
  "well_formed (projectState one_project) (memory one_project) \<and>
   elements (memory one_project) (projects (projectState one_project)) = [1] \<and>
   elements (snd (perform_all
                    [MoveProject (ascii ''0.5'') Finished,
                     AddProject (Finite False 25 (- 2)) (ascii ''Write docs'')
                       (ascii ''Document the API'') (Finite False 1 0)]
                    (projectState one_project) (memory one_project)))
            (projects (projectState one_project)) = [1, 6] \<and>
   prefix
     (map (\<lambda>p. p\<lparr>status := Active\<rparr>)
        (contents (memory one_project) (projects (projectState one_project))))
     (map (\<lambda>p. p\<lparr>status := Active\<rparr>)
        (contents (snd (perform_all
                    [MoveProject (ascii ''0.5'') Finished,
                     AddProject (Finite False 25 (- 2)) (ascii ''Write docs'')
                       (ascii ''Document the API'') (Finite False 1 0)]
                    (projectState one_project) (memory one_project)))
           (projects (projectState one_project))))"
proof -
  have w: "well_formed (projectState one_project) (memory one_project)"
    by code_simp
  have e: "elements (memory one_project) (projects (projectState one_project)) = [1]"
    by code_simp
  have e': "elements (snd (perform_all
                    [MoveProject (ascii ''0.5'') Finished,
                     AddProject (Finite False 25 (- 2)) (ascii ''Write docs'')
                       (ascii ''Document the API'') (Finite False 1 0)]
                    (projectState one_project) (memory one_project)))
            (projects (projectState one_project)) = [1, 6]"
    by code_simp
  obtain ns h' where r: "perform_all
                    [MoveProject (ascii ''0.5'') Finished,
                     AddProject (Finite False 25 (- 2)) (ascii ''Write docs'')
                       (ascii ''Document the API'') (Finite False 1 0)]
                    (projectState one_project) (memory one_project) = (ns, h')"
    by (cases "perform_all
                    [MoveProject (ascii ''0.5'') Finished,
                     AddProject (Finite False 25 (- 2)) (ascii ''Write docs'')
                       (ascii ''Document the API'') (Finite False 1 0)]
                    (projectState one_project) (memory one_project)")
  from projects_keep_creation_order [OF w r]
  have "prefix
     (map (\<lambda>p. p\<lparr>status := Active\<rparr>)
        (contents (memory one_project) (projects (projectState one_project))))
     (map (\<lambda>p. p\<lparr>status := Active\<rparr>) (contents h' (projects (projectState one_project))))"
    by blast
  with w e e' r show ?thesis by (simp only: snd_conv simp_thms)
qed

text \<open>
  \<^bold>\<open>C9.\<close> Whatever the user does (fill in the form, submit it, drop a text on a
  list), the number of people of every project of the store is a number between 0 and 5,
  both included; it is never \<open>NaN\<close>.
\<close>

theorem people_between_0_and_5:
  "well_formed (projectState (run rnd evs program_start)) (memory (run rnd evs program_start)) \<and>
   (\<forall>p \<in> set (store_projects (run rnd evs program_start)).
      ge_number (people p) (Finite False 0 0) \<and> le_number (people p) (Finite False 5 0))"
  by (rule run_invariant) (simp_all add: start_well_formed start_no_projects)

theorem people_between_0_and_5_witness:
  "store_projects (run id [Input build_api, Submit (Finite False 5 (- 1)),
                           Drop finished (ascii ''0.5'')] program_start) =
     [\<lparr>ident = ascii ''0.5'', title = ascii ''Build API'',
       description = ascii ''Design and build the REST API'', people = Finite False 3 0,
       status = Finished\<rparr>] \<and>
   ge_number (Finite False 3 0) (Finite False 0 0) \<and>
   le_number (Finite False 3 0) (Finite False 5 0)"
proof -
  have e: "store_projects (run id [Input build_api, Submit (Finite False 5 (- 1)),
                           Drop finished (ascii ''0.5'')] program_start) =
     [\<lparr>ident = ascii ''0.5'', title = ascii ''Build API'',
       description = ascii ''Design and build the REST API'', people = Finite False 3 0,
       status = Finished\<rparr>]"
    by code_simp
  from people_between_0_and_5 [of id "[Input build_api, Submit (Finite False 5 (- 1)),
                           Drop finished (ascii ''0.5'')]"]
  have "ge_number (Finite False 3 0) (Finite False 0 0) \<and>
        le_number (Finite False 3 0) (Finite False 5 0)"
    by (simp only: e list.set ball_simps Project.select_convs simp_thms)
  with e show ?thesis by simp
qed

text \<open>
  With 0 in the people field the form is accepted, as its lower bound is 0, and the
  project it adds has 0 people, which is no positive integer.
\<close>

theorem people_positive_counterexample:
  "map people (store_projects (run id [Input zero_people, Submit (Finite False 5 (- 1))]
                                 program_start)) = [Finite False 0 0] \<and>
   \<not> positive_integer (Finite False 0 0)"
  by code_simp

text \<open>
  \<^bold>\<open>C10.\<close> \<open>required\<close> holds for every number, since the printed form of a number
  is never blank. The empty string converts to the number 0, which passes the validation
  of the people field (required, at least 0, at most 5); so a submission with a valid
  title and description and an empty people field adds a project with 0 people.
\<close>

theorem required_holds_for_every_number:
  "validator \<lparr>value' = Num v, required = Some True, minLength = None, maxLength = None,
              min' = None, max' = None\<rparr> \<and>
   trim (toString (Num v)) \<noteq> [] \<and>
   StringToNumber rnd [] = Finite False 0 0 \<and>
   validator \<lparr>value' = Num (StringToNumber rnd []), required = Some True, minLength = None,
              maxLength = None, min' = Some (Finite False 0 0),
              max' = Some (Finite False 5 0)\<rparr> \<and>
   (well_formed (projectState w) (memory w) \<and>
    trim (titleElement (projInput w)) \<noteq> [] \<and>
    trim (descriptionElement (projInput w)) \<noteq> [] \<and>
    5 \<le> length (descriptionElement (projInput w)) \<and>
    peopleElement (projInput w) = [] \<longrightarrow>
    store_projects (snd (handleSubmit rnd random w)) =
      store_projects w @
      [\<lparr>ident = number_toString random, title = titleElement (projInput w),
        description = descriptionElement (projInput w), people = Finite False 0 0,
        status = Active\<rparr>])"
proof -
  have z: "StringToNumber rnd [] = Finite False 0 0"
    by (simp add: StringToNumber_def trim_def)
  have r: "ge_number (Finite False 0 0) (Finite False 0 0)"
    "le_number (Finite False 0 0) (Finite False 5 0)"
    by (simp_all add: ge_number_def le_number_def mathematical_value_def)
  have v: "validator \<lparr>value' = Num v, required = Some True, minLength = None, maxLength = None,
              min' = None, max' = None\<rparr>"
    by (simp add: validator_def toString_def number_toString_not_blank)
  have s: "store_projects (snd (handleSubmit rnd random w)) =
      store_projects w @
      [\<lparr>ident = number_toString random, title = titleElement (projInput w),
        description = descriptionElement (projInput w), people = Finite False 0 0,
        status = Active\<rparr>]"
    if w: "well_formed (projectState w) (memory w)"
      and t: "trim (titleElement (projInput w)) \<noteq> []"
      and d: "trim (descriptionElement (projInput w)) \<noteq> []"
         "5 \<le> length (descriptionElement (projInput w))"
      and p: "peopleElement (projInput w) = []"
  proof -
    obtain ns h' where a: "addProjects random (titleElement (projInput w))
        (descriptionElement (projInput w)) (Finite False 0 0)
        (projectState w) (memory w) = (ns, h')"
      by (cases "addProjects random (titleElement (projInput w))
        (descriptionElement (projInput w)) (Finite False 0 0) (projectState w) (memory w)")
    have "handleSubmit rnd random w =
        (ns, w\<lparr>memory := h',
               projInput := \<lparr>titleElement = [], descriptionElement = [], peopleElement = []\<rparr>\<rparr>)"
      using handleSubmit_valid [of w rnd random] t d r a by (simp add: p z)
    with addProjects_contents [OF w a] show ?thesis
      by (simp add: store_projects_def)
  qed
  from v z r s show ?thesis
    by (simp add: valid_people toString_def number_toString_not_blank)
qed

theorem required_holds_for_every_number_witness:
  "well_formed (projectState (program_start\<lparr>projInput := no_people\<rparr>))
     (memory (program_start\<lparr>projInput := no_people\<rparr>)) \<and>
   peopleElement no_people = [] \<and>
   store_projects (snd (handleSubmit id (Finite False 5 (- 1))
                          (program_start\<lparr>projInput := no_people\<rparr>))) =
     [\<lparr>ident = ascii ''0.5'', title = ascii ''Build API'',
       description = ascii ''Design and build the REST API'', people = Finite False 0 0,
       status = Active\<rparr>]"
proof -
  have w: "well_formed (projectState (program_start\<lparr>projInput := no_people\<rparr>))
     (memory (program_start\<lparr>projInput := no_people\<rparr>))"
    by code_simp
  have c: "trim (titleElement no_people) \<noteq> []"
    "trim (descriptionElement no_people) \<noteq> []"
    "5 \<le> length (descriptionElement no_people)"
    "peopleElement no_people = []"
    by code_simp+
  have v: "number_toString (Finite False 5 (- 1)) = ascii ''0.5''"
    "titleElement no_people = ascii ''Build API''"
    "descriptionElement no_people = ascii ''Design and build the REST API''"
    "store_projects (program_start\<lparr>projInput := no_people\<rparr>) = []"
    by code_simp+
  from required_holds_for_every_number
    [of "Finite False 0 0" id "program_start\<lparr>projInput := no_people\<rparr>" "Finite False 5 (- 1)"]
    w c
  have "store_projects (snd (handleSubmit id (Finite False 5 (- 1))
                          (program_start\<lparr>projInput := no_people\<rparr>))) =
     [\<lparr>ident = ascii ''0.5'', title = ascii ''Build API'',
       description = ascii ''Design and build the REST API'', people = Finite False 0 0,
       status = Active\<rparr>]"
    by (simp add: v del: number_toString.simps)
  with w c show ?thesis by simp
qed

end
